theory Spec2Isabelle
  imports Main "HOL-Library.AList" "HOL-Library.Sublist"
begin

section \<open>The bidirectional sync engine of \<^verbatim>\<open>src/commands/dev.js\<close>\<close>

text \<open>
  The development embeds the class \<^verbatim>\<open>SyncManager\<close> and the functions
  \<^verbatim>\<open>handleFileChange\<close>, \<^verbatim>\<open>scheduleSync\<close>, \<^verbatim>\<open>performSync\<close>,
  \<^verbatim>\<open>isFileStable\<close>, \<^verbatim>\<open>getSyncPaths\<close> and \<^verbatim>\<open>initializeFileHashes\<close>.
  What the JavaScript takes from Node (the clock, the timer table, the \<^verbatim>\<open>path\<close> and
  \<^verbatim>\<open>fs\<close> modules, the MD5 digest) is an explicit argument or a small model of its own:
  \<^item> \<^verbatim>\<open>Date.now()\<close> is an argument \<open>now\<close>, an \<open>int\<close> of milliseconds;
  \<^item> \<^verbatim>\<open>setTimeout\<close> and \<^verbatim>\<open>clearTimeout\<close> act on a table of outstanding timers;
  \<^item> the filesystem is a map from resolved absolute paths to nodes, and every
    \<^verbatim>\<open>fs\<close> call that can throw returns a sum with the error on the left;
  \<^item> an asynchronous wait sees the filesystem of the time at which it resumes; a
    synchronous stretch of code sees one snapshot of the filesystem, but for the stretch
    from \<^verbatim>\<open>fs.copyFileSync\<close> to \<^verbatim>\<open>updateRelatedHashes\<close> in \<^verbatim>\<open>performSync\<close>, where
    another process may write before the two files are read again.
\<close>

subsection \<open>JavaScript values held in the hash map\<close>

text \<open>
  \<^verbatim>\<open>getFileHash\<close> returns a hex string or \<^verbatim>\<open>null\<close>; \<^verbatim>\<open>Map.get\<close> returns
  \<^verbatim>\<open>undefined\<close> for a missing key. \<^verbatim>\<open>if (hash)\<close> tests truthiness: \<^verbatim>\<open>null\<close>,
  \<^verbatim>\<open>undefined\<close> and the empty string are falsy.
\<close>

datatype jsval = Undefined | Null | Str string

fun truthy :: "jsval \<Rightarrow> bool" where
  "truthy (Str s) = (s \<noteq> [])"
| "truthy Null = False"
| "truthy Undefined = False"

definition map_get :: "('k \<rightharpoonup> jsval) \<Rightarrow> 'k \<Rightarrow> jsval" where
  "map_get m k = (case m k of None \<Rightarrow> Undefined | Some v \<Rightarrow> v)"

subsection \<open>Paths (Node's \<^verbatim>\<open>path\<close> module on POSIX)\<close>

fun split_on :: "char \<Rightarrow> string \<Rightarrow> string list" where
  "split_on c [] = [[]]"
| "split_on c (x # xs) =
     (if x = c then [] # split_on c xs
      else (case split_on c xs of
              [] \<Rightarrow> [[x]]
            | y # ys \<Rightarrow> (x # y) # ys))"

definition split_path :: "string \<Rightarrow> string list" where
  "split_path p = filter (\<lambda>c. c \<noteq> []) (split_on CHR ''/'' p)"

fun normalize_rev :: "string list \<Rightarrow> string list \<Rightarrow> string list" where
  "normalize_rev acc [] = acc"
| "normalize_rev acc (c # cs) =
     (if c = ''.'' then normalize_rev acc cs
      else if c = ''..'' then normalize_rev (tl acc) cs
      else normalize_rev (c # acc) cs)"

definition normalize :: "string list \<Rightarrow> string list" where
  "normalize cs = rev (normalize_rev [] cs)"

definition join_path :: "string list \<Rightarrow> string" where
  "join_path cs = (if cs = [] then ''/'' else concat (map (\<lambda>c. CHR ''/'' # c) cs))"

definition is_absolute :: "string \<Rightarrow> bool" where
  "is_absolute p = (case p of [] \<Rightarrow> False | x # xs \<Rightarrow> x = CHR ''/'')"

definition resolved :: "string \<Rightarrow> string \<Rightarrow> string list" where
  "resolved wd p = normalize (split_path (if is_absolute p then p else wd @ ''/'' @ p))"

text \<open>\<^verbatim>\<open>path.resolve(p)\<close>, with the working directory \<open>wd\<close> of the process.\<close>

definition path_resolve :: "string \<Rightarrow> string \<Rightarrow> string" where
  "path_resolve wd p = join_path (resolved wd p)"

text \<open>\<^verbatim>\<open>path.resolve(base, rel)\<close>: the rightmost absolute argument wins.\<close>

definition path_resolve2 :: "string \<Rightarrow> string \<Rightarrow> string \<Rightarrow> string" where
  "path_resolve2 wd base rel =
     (if is_absolute rel then path_resolve wd rel
      else path_resolve wd (base @ ''/'' @ rel))"

fun strip_common :: "string list \<Rightarrow> string list \<Rightarrow> string list \<times> string list" where
  "strip_common (x # xs) (y # ys) =
     (if x = y then strip_common xs ys else (x # xs, y # ys))"
| "strip_common xs ys = (xs, ys)"

fun intercalate :: "string \<Rightarrow> string list \<Rightarrow> string" where
  "intercalate sep [] = []"
| "intercalate sep [c] = c"
| "intercalate sep (c # cs) = c @ sep @ intercalate sep cs"

text \<open>\<^verbatim>\<open>path.relative(from, to)\<close>.\<close>

definition path_relative :: "string \<Rightarrow> string \<Rightarrow> string \<Rightarrow> string" where
  "path_relative wd from to =
     (case strip_common (resolved wd from) (resolved wd to) of
        (up, down) \<Rightarrow> intercalate ''/'' (replicate (length up) ''..'' @ down))"

text \<open>\<^verbatim>\<open>path.dirname(p)\<close> of a resolved path.\<close>

definition path_dirname :: "string \<Rightarrow> string" where
  "path_dirname p = join_path (butlast (split_path p))"

text \<open>Components as \<open>split_path\<close> yields them, and components free of \<^verbatim>\<open>.\<close> and \<^verbatim>\<open>..\<close>.\<close>

definition plain :: "string list \<Rightarrow> bool" where
  "plain cs = (\<forall>c\<in>set cs. c \<noteq> [] \<and> CHR ''/'' \<notin> set c)"

definition dotless :: "string list \<Rightarrow> bool" where
  "dotless cs = (\<forall>c\<in>set cs. c \<noteq> ''.'' \<and> c \<noteq> ''..'')"

subsection \<open>The filesystem (Node's \<^verbatim>\<open>fs\<close> module)\<close>

datatype fs_error = ENOENT | EISDIR | ENOTDIR | EEXIST | EACCES

text \<open>
  A regular file has its bytes, its modification time and whether the process may read
  and write it; a directory has its modification time, and \<^verbatim>\<open>stat\<close> reports the size
  4096 for it. The keys of the map are resolved absolute paths, which is what every call
  of the engine passes.
\<close>

datatype node = File (bytes: string) (mtime: int) (permitted: bool) | Dir (mtime: int)

type_synonym filesystem = "string \<rightharpoonup> node"

record stats =
  st_size :: nat
  st_mtime :: int

definition existsSync :: "filesystem \<Rightarrow> string \<Rightarrow> bool" where
  "existsSync fs p = (fs p \<noteq> None)"

definition statSync :: "filesystem \<Rightarrow> string \<Rightarrow> fs_error + stats" where
  "statSync fs p =
     (case fs p of
        None \<Rightarrow> Inl ENOENT
      | Some (File content m ok) \<Rightarrow> Inr \<lparr>st_size = length content, st_mtime = m\<rparr>
      | Some (Dir m) \<Rightarrow> Inr \<lparr>st_size = 4096, st_mtime = m\<rparr>)"

definition readFileSync :: "filesystem \<Rightarrow> string \<Rightarrow> fs_error + string" where
  "readFileSync fs p =
     (case fs p of
        None \<Rightarrow> Inl ENOENT
      | Some (File content m ok) \<Rightarrow> (if ok then Inr content else Inl EACCES)
      | Some (Dir m) \<Rightarrow> Inl EISDIR)"

definition is_file :: "filesystem \<Rightarrow> string \<Rightarrow> bool" where
  "is_file fs p = (case fs p of Some (File content m ok) \<Rightarrow> True | _ \<Rightarrow> False)"

definition is_directory :: "filesystem \<Rightarrow> string \<Rightarrow> bool" where
  "is_directory fs p = (p = ''/'' \<or> (case fs p of Some (Dir m) \<Rightarrow> True | _ \<Rightarrow> False))"

text \<open>The directory itself and every directory above it, outermost first, root excluded.\<close>

definition ancestors :: "string \<Rightarrow> string list" where
  "ancestors p = map join_path (tl (prefixes (split_path p)))"

text \<open>\<^verbatim>\<open>fs.mkdirSync(dir, { recursive: true })\<close> at time \<open>now\<close>.\<close>

definition mkdirSync :: "int \<Rightarrow> string \<Rightarrow> filesystem \<Rightarrow> fs_error + filesystem" where
  "mkdirSync now dir fs =
     (if is_file fs dir then Inl EEXIST
      else if list_ex (is_file fs) (ancestors dir) then Inl ENOTDIR
      else Inr (fold (\<lambda>d f. if f d = None then f(d \<mapsto> Dir now) else f) (ancestors dir) fs))"

text \<open>\<^verbatim>\<open>fs.copyFileSync(src, dest)\<close> at time \<open>now\<close>.\<close>

definition copyFileSync :: "int \<Rightarrow> string \<Rightarrow> string \<Rightarrow> filesystem \<Rightarrow> fs_error + filesystem" where
  "copyFileSync now src dest fs =
     (case readFileSync fs src of
        Inl err \<Rightarrow> Inl err
      | Inr content \<Rightarrow>
          (case fs dest of
             Some (Dir m) \<Rightarrow> Inl EISDIR
           | Some (File old m ok) \<Rightarrow>
               (if ok then Inr (fs(dest \<mapsto> File content now True)) else Inl EACCES)
           | None \<Rightarrow>
               (if is_directory fs (path_dirname dest)
                then Inr (fs(dest \<mapsto> File content now True))
                else if list_ex (is_file fs) (ancestors (path_dirname dest)) then Inl ENOTDIR
                else Inl ENOENT)))"

subsection \<open>The host: the digest and the working directory\<close>

text \<open>
  \<^verbatim>\<open>crypto.createHash("md5").update(content).digest("hex")\<close> is the field
  \<open>digest_hex\<close>; \<^verbatim>\<open>process.cwd()\<close> is the field \<open>cwd\<close>. A hex digest of MD5 has
  32 characters, so the theorems that need a digest to be truthy assume it non-empty.
\<close>

record host =
  digest_hex :: "string \<Rightarrow> string"
  cwd :: string

subsection \<open>Timers and the state of \<^verbatim>\<open>SyncManager\<close>\<close>

datatype direction = SourceToTarget | TargetToSource

fun direction_string :: "direction \<Rightarrow> string" where
  "direction_string SourceToTarget = ''source-to-target''"
| "direction_string TargetToSource = ''target-to-source''"

text \<open>
  The three closures the engine hands to \<^verbatim>\<open>setTimeout\<close>:
  \<^verbatim>\<open>() => this.unlockFile(filePath)\<close> (in \<^verbatim>\<open>lockFile\<close> and in the \<^verbatim>\<open>finally\<close> of
  \<^verbatim>\<open>performSync\<close>), \<^verbatim>\<open>() => this.recentlySynced.delete(filePath)\<close> (in
  \<^verbatim>\<open>unlockFile\<close>) and the debounced \<^verbatim>\<open>performSync\<close> of \<^verbatim>\<open>scheduleSync\<close>.
\<close>

datatype callback = CbUnlock string | CbForget string | CbSync string direction

record timer =
  handle :: nat
  due :: int
  action :: callback

record sync_manager =
  sourcePath :: string
  targetPath :: string
  fileHashes :: "string \<rightharpoonup> jsval"
  syncingFiles :: "string set"
  pendingOperations :: "(string \<times> nat) list"
  lastSyncTime :: "string \<rightharpoonup> int"
  recentlySynced :: "string set"

text \<open>The manager together with Node's table of outstanding timers.\<close>

record engine = sync_manager +
  timers :: "timer list"
  next_handle :: nat

definition setTimeout :: "callback \<Rightarrow> int \<Rightarrow> int \<Rightarrow> engine \<Rightarrow> nat \<times> engine" where
  "setTimeout cb delay now e =
     (next_handle e,
      e\<lparr>timers := timers e @ [\<lparr>handle = next_handle e, due = now + delay, action = cb\<rparr>],
        next_handle := next_handle e + 1\<rparr>)"

definition clearTimeout :: "nat \<Rightarrow> engine \<Rightarrow> engine" where
  "clearTimeout h e = e\<lparr>timers := filter (\<lambda>tm. handle tm \<noteq> h) (timers e)\<rparr>"

definition constructor :: "string \<Rightarrow> string \<Rightarrow> engine" where
  "constructor sourceRoot targetRoot =
     \<lparr>sourcePath = sourceRoot, targetPath = targetRoot, fileHashes = Map.empty,
      syncingFiles = {}, pendingOperations = [], lastSyncTime = Map.empty,
      recentlySynced = {}, timers = [], next_handle = 0\<rparr>"

definition getFileHash :: "host \<Rightarrow> filesystem \<Rightarrow> string \<Rightarrow> jsval" where
  "getFileHash h fs filePath =
     (if \<not> existsSync fs filePath then Null
      else (case readFileSync fs filePath of
              Inl err \<Rightarrow> Null
            | Inr content \<Rightarrow> Str (digest_hex h content)))"

definition hasFileChanged :: "host \<Rightarrow> filesystem \<Rightarrow> engine \<Rightarrow> string \<Rightarrow> bool" where
  "hasFileChanged h fs e filePath =
     (let currentHash = getFileHash h fs filePath;
          storedHash = map_get (fileHashes e) filePath
      in currentHash \<noteq> storedHash \<and> currentHash \<noteq> Null)"

definition unlockFile :: "int \<Rightarrow> string \<Rightarrow> engine \<Rightarrow> engine" where
  "unlockFile now filePath e =
     snd (setTimeout (CbForget filePath) 5000 now
            (e\<lparr>syncingFiles := syncingFiles e - {filePath}\<rparr>))"

definition lockFile :: "int \<Rightarrow> string \<Rightarrow> engine \<Rightarrow> engine" where
  "lockFile now filePath e =
     snd (setTimeout (CbUnlock filePath) 10000 now
            (e\<lparr>syncingFiles := insert filePath (syncingFiles e),
               recentlySynced := insert filePath (recentlySynced e)\<rparr>))"

definition isFileLocked :: "engine \<Rightarrow> string \<Rightarrow> bool" where
  "isFileLocked e filePath = (filePath \<in> syncingFiles e \<or> filePath \<in> recentlySynced e)"

definition updateFileHash :: "host \<Rightarrow> filesystem \<Rightarrow> int \<Rightarrow> string \<Rightarrow> engine \<Rightarrow> engine" where
  "updateFileHash h fs now filePath e =
     (let hash = getFileHash h fs filePath
      in if truthy hash
         then e\<lparr>fileHashes := (fileHashes e)(filePath \<mapsto> hash),
                lastSyncTime := (lastSyncTime e)(filePath \<mapsto> now)\<rparr>
         else e)"

text \<open>
  The parameters \<^verbatim>\<open>sourcePath\<close> and \<^verbatim>\<open>targetPath\<close> of \<^verbatim>\<open>updateRelatedHashes\<close>,
  and the pair that \<^verbatim>\<open>getSyncPaths\<close> returns, are written \<open>sourceFile\<close> and
  \<open>targetFile\<close>: the two roots of the manager have the names of the source. Both reads
  of \<^verbatim>\<open>Date.now()\<close> give the same \<open>now\<close>.
\<close>

definition updateRelatedHashes ::
  "host \<Rightarrow> filesystem \<Rightarrow> int \<Rightarrow> string \<Rightarrow> string \<Rightarrow> engine \<Rightarrow> engine" where
  "updateRelatedHashes h fs now sourceFile targetFile e =
     (let sourceHash = getFileHash h fs sourceFile;
          targetHash = getFileHash h fs targetFile
      in if truthy sourceHash \<and> truthy targetHash \<and> sourceHash = targetHash
         then e\<lparr>fileHashes := (fileHashes e)(sourceFile \<mapsto> sourceHash, targetFile \<mapsto> targetHash),
                lastSyncTime := (lastSyncTime e)(sourceFile \<mapsto> now, targetFile \<mapsto> now)\<rparr>
         else e)"

text \<open>
  \<^verbatim>\<open>lastSync && (Date.now() - lastSync < thresholdMs)\<close>, read as a condition:
  \<^verbatim>\<open>undefined\<close> and \<open>0\<close> are falsy.
\<close>

definition wasRecentlyModified :: "int \<Rightarrow> engine \<Rightarrow> string \<Rightarrow> int \<Rightarrow> bool" where
  "wasRecentlyModified now e filePath thresholdMs =
     (case lastSyncTime e filePath of
        None \<Rightarrow> False
      | Some lastSync \<Rightarrow> lastSync \<noteq> 0 \<and> now - lastSync < thresholdMs)"

definition cleanup :: "engine \<Rightarrow> engine" where
  "cleanup e =
     (fold clearTimeout (map snd (pendingOperations e)) e)
       \<lparr>pendingOperations := [], syncingFiles := {}, recentlySynced := {}\<rparr>"

subsection \<open>The stability prober\<close>

text \<open>
  One pass through the body of the \<^verbatim>\<open>for\<close> loop of \<^verbatim>\<open>isFileStable\<close>, started at
  time \<open>t\<close>. It ends with a \<^verbatim>\<open>return\<close>, with the \<^verbatim>\<open>continue\<close> of the zero-size
  branch, or by falling out of the \<^verbatim>\<open>try\<close> (also through its empty \<^verbatim>\<open>catch\<close>);
  each carries the time reached. \<open>world t\<close> is the filesystem at time \<open>t\<close>, and an
  \<^verbatim>\<open>await\<close> of 500ms resumes at \<open>t + 500\<close>.
\<close>

datatype probe = Returned bool int | Continued int | Fell_through int

definition probe_once :: "(int \<Rightarrow> filesystem) \<Rightarrow> int \<Rightarrow> string \<Rightarrow> probe" where
  "probe_once world t filePath =
     (if \<not> existsSync (world t) filePath then Returned False t
      else (case statSync (world t) filePath of
              Inl err \<Rightarrow> Fell_through t
            | Inr stats1 \<Rightarrow>
                (if st_size stats1 = 0 then Continued (t + 500)
                 else (if \<not> existsSync (world (t + 500)) filePath then Returned False (t + 500)
                       else (case statSync (world (t + 500)) filePath of
                               Inl err \<Rightarrow> Fell_through (t + 500)
                             | Inr stats2 \<Rightarrow>
                                 (if st_size stats1 = st_size stats2 \<and>
                                     st_mtime stats1 = st_mtime stats2
                                  then Returned True (t + 500)
                                  else Fell_through (t + 500)))))))"

text \<open>
  The loop, entered with the counter at \<open>attempt\<close>. The increment of the \<^verbatim>\<open>for\<close>
  statement runs after \<^verbatim>\<open>continue\<close> as it does after the end of the body; the wait of
  1000ms between attempts is skipped by \<^verbatim>\<open>continue\<close>. The result is the returned
  boolean and the time of the return.
\<close>

function isFileStable :: "(int \<Rightarrow> filesystem) \<Rightarrow> int \<Rightarrow> string \<Rightarrow> nat \<Rightarrow> nat \<Rightarrow> bool \<times> int" where
  "isFileStable world t filePath attempt maxAttempts =
     (if attempt \<le> maxAttempts then
        (case probe_once world t filePath of
           Returned b t' \<Rightarrow> (b, t')
         | Continued t' \<Rightarrow> isFileStable world t' filePath (attempt + 1) maxAttempts
         | Fell_through t' \<Rightarrow>
             isFileStable world (if attempt < maxAttempts then t' + 1000 else t')
               filePath (attempt + 1) maxAttempts)
      else (False, t))"
  by pat_completeness auto
termination
  by (relation "measure (\<lambda>(world, t, filePath, attempt, maxAttempts). maxAttempts + 1 - attempt)")
     auto

declare isFileStable.simps [simp del]

subsection \<open>The watch coordinator, the debouncer and the executor\<close>

definition scheduleSync :: "int \<Rightarrow> string \<Rightarrow> direction \<Rightarrow> engine \<Rightarrow> engine" where
  "scheduleSync now filePath direction e =
     (let key = filePath @ ''-'' @ direction_string direction;
          e1 = (case map_of (pendingOperations e) key of
                  Some pending \<Rightarrow> clearTimeout pending e
                | None \<Rightarrow> e);
          delay = (if direction = TargetToSource then 4000 else 2000);
          (timeout, e2) = setTimeout (CbSync filePath direction) delay now e1
      in e2\<lparr>pendingOperations := AList.update key timeout (pendingOperations e2)\<rparr>)"

definition handleFileChange :: "host \<Rightarrow> filesystem \<Rightarrow> int \<Rightarrow> string \<Rightarrow> engine \<Rightarrow> engine" where
  "handleFileChange h fs now filePath e =
     (let normalizedPath = path_resolve (cwd h) filePath
      in if isFileLocked e normalizedPath then e
         else if wasRecentlyModified now e normalizedPath 3000 then e
         else if \<not> hasFileChanged h fs e normalizedPath then e
         else (let isSourceFile = prefix (sourcePath e) normalizedPath;
                   direction = (if isSourceFile then SourceToTarget else TargetToSource)
               in scheduleSync now normalizedPath direction e))"

text \<open>The pair \<^verbatim>\<open>{ sourcePath, targetPath }\<close> that \<^verbatim>\<open>getSyncPaths\<close> returns.\<close>

definition getSyncPaths :: "host \<Rightarrow> string \<Rightarrow> direction \<Rightarrow> engine \<Rightarrow> string \<times> string" where
  "getSyncPaths h filePath direction e =
     (let normalizedFilePath = path_resolve (cwd h) filePath;
          normalizedSourcePath = path_resolve (cwd h) (sourcePath e);
          normalizedTargetPath = path_resolve (cwd h) (targetPath e)
      in if direction = SourceToTarget
         then (let relativePath = path_relative (cwd h) normalizedSourcePath normalizedFilePath
               in (normalizedFilePath, path_resolve2 (cwd h) normalizedTargetPath relativePath))
         else (let relativePath = path_relative (cwd h) normalizedTargetPath normalizedFilePath
               in (normalizedFilePath, path_resolve2 (cwd h) normalizedSourcePath relativePath)))"

text \<open>
  What \<^verbatim>\<open>performSync\<close> writes to the console: the green notice of a finished sync,
  with its direction and the path relative to the working directory, or the red notice
  of a caught error.
\<close>

datatype notice = Notice_synced direction string | Notice_error fs_error

text \<open>
  A cycle of \<^verbatim>\<open>performSync\<close> carries the engine, the filesystem as the cycle leaves
  it, the console output and the time reached. A block that can throw returns the thrown
  error on the left, with the state as it was at the \<^verbatim>\<open>throw\<close>.
\<close>

type_synonym cycle = "engine \<times> filesystem \<times> notice list \<times> int"

definition engine_of :: "(fs_error + unit) \<times> cycle \<Rightarrow> engine" where
  "engine_of r = fst (snd r)"

definition files_of :: "(fs_error + unit) \<times> cycle \<Rightarrow> filesystem" where
  "files_of r = fst (snd (snd r))"

definition console_of :: "(fs_error + unit) \<times> cycle \<Rightarrow> notice list" where
  "console_of r = fst (snd (snd (snd r)))"

definition clock_of :: "(fs_error + unit) \<times> cycle \<Rightarrow> int" where
  "clock_of r = snd (snd (snd (snd r)))"

definition try_catch_finally ::
  "(fs_error + unit) \<times> 's \<Rightarrow> (fs_error \<Rightarrow> 's \<Rightarrow> (fs_error + unit) \<times> 's) \<Rightarrow> ('s \<Rightarrow> 's)
     \<Rightarrow> (fs_error + unit) \<times> 's" where
  "try_catch_finally body handler finalizer =
     (case body of
        (Inl err, s) \<Rightarrow> (case handler err s of (r, s') \<Rightarrow> (r, finalizer s'))
      | (Inr v, s) \<Rightarrow> (Inr v, finalizer s))"

text \<open>
  What the other writers (editors, the container) do to the two trees: \<open>disk world t\<close> is
  the filesystem as they have left it at time \<open>t\<close>, and \<open>meanwhile world\<close> is what they
  do to it between \<^verbatim>\<open>fs.copyFileSync\<close> and the two reads of
  \<^verbatim>\<open>updateRelatedHashes\<close>, which reads both files from the disk again (the identity
  when nobody writes in between).
\<close>

record world =
  disk :: "int \<Rightarrow> filesystem"
  meanwhile :: "filesystem \<Rightarrow> filesystem"

text \<open>
  The \<^verbatim>\<open>try\<close> block of \<^verbatim>\<open>performSync\<close>, entered at time \<open>t0\<close>. The code up to
  \<^verbatim>\<open>await isFileStable\<close> runs at \<open>t0\<close>; the code after it runs at the time \<open>t1\<close> the
  prober returns, on the filesystem \<open>disk world t1\<close>, and the pair update reads the
  filesystem that the copy left and \<open>meanwhile world\<close> changed. The cycle is taken in
  isolation: no other callback changes the manager during the wait.
\<close>

definition performSync_try ::
  "host \<Rightarrow> world \<Rightarrow> int \<Rightarrow> string \<Rightarrow> direction \<Rightarrow> engine
     \<Rightarrow> (fs_error + unit) \<times> cycle" where
  "performSync_try h world t0 normalizedFilePath direction e =
     (if isFileLocked e normalizedFilePath then (Inr (), (e, disk world t0, [], t0))
      else
        (let e1 = lockFile t0 normalizedFilePath e;
             (sourceFile, targetFile) = getSyncPaths h normalizedFilePath direction e1;
             (stable, t1) = isFileStable (disk world) t0 sourceFile 1 3;
             fs1 = disk world t1
         in if \<not> stable then (Inr (), (e1, fs1, [], t1))
            else if \<not> hasFileChanged h fs1 e1 sourceFile then (Inr (), (e1, fs1, [], t1))
            else
              (let targetDir = path_dirname targetFile
               in (case (if \<not> existsSync fs1 targetDir then mkdirSync t1 targetDir fs1
                         else Inr fs1) of
                     Inl err \<Rightarrow> (Inl err, (e1, fs1, [], t1))
                   | Inr fs2 \<Rightarrow>
                       (case copyFileSync t1 sourceFile targetFile fs2 of
                          Inl err \<Rightarrow> (Inl err, (e1, fs2, [], t1))
                        | Inr fs3 \<Rightarrow>
                            (let fs4 = meanwhile world fs3;
                                 e2 = updateRelatedHashes h fs4 t1 sourceFile targetFile e1;
                                 relativePath = path_relative (cwd h) (cwd h) sourceFile
                             in (Inr (),
                                 (e2, fs4, [Notice_synced direction relativePath], t1))))))))"

definition performSync ::
  "host \<Rightarrow> world \<Rightarrow> int \<Rightarrow> string \<Rightarrow> direction \<Rightarrow> engine
     \<Rightarrow> (fs_error + unit) \<times> cycle" where
  "performSync h world t0 filePath direction e =
     (let normalizedFilePath = path_resolve (cwd h) filePath
      in try_catch_finally
           (performSync_try h world t0 normalizedFilePath direction e)
           (\<lambda>err (e', fs, out, t). (Inr (), (e', fs, out @ [Notice_error err], t)))
           (\<lambda>(e', fs, out, t).
              (snd (setTimeout (CbUnlock normalizedFilePath) 1000 t e'), fs, out, t)))"

text \<open>
  \<^verbatim>\<open>initializeFileHashes\<close>, given the files that its directory walk
  \<^verbatim>\<open>getAllFiles\<close> found under the two roots.
\<close>

definition initializeFileHashes :: "host \<Rightarrow> filesystem \<Rightarrow> int \<Rightarrow> string list \<Rightarrow> engine \<Rightarrow> engine" where
  "initializeFileHashes h fs now files e = fold (updateFileHash h fs now) files e"

subsection \<open>Running the engine\<close>

text \<open>
  What a timer does when it fires at time \<open>now\<close>. The debounce timer calls
  \<^verbatim>\<open>performSync\<close> and then deletes its key from \<^verbatim>\<open>pendingOperations\<close>; with
  the cycle taken in isolation, the deletion commutes with the part of the cycle that
  runs after the \<^verbatim>\<open>await\<close>, which does not touch \<^verbatim>\<open>pendingOperations\<close>.
\<close>

definition run_callback ::
  "host \<Rightarrow> world \<Rightarrow> int \<Rightarrow> callback \<Rightarrow> engine \<Rightarrow> (fs_error + unit) \<times> cycle" where
  "run_callback h world now cb e =
     (case cb of
        CbUnlock filePath \<Rightarrow> (Inr (), (unlockFile now filePath e, disk world now, [], now))
      | CbForget filePath \<Rightarrow>
          (Inr (), (e\<lparr>recentlySynced := recentlySynced e - {filePath}\<rparr>, disk world now, [], now))
      | CbSync filePath direction \<Rightarrow>
          (case performSync h world now filePath direction e of
             (r, (e', rest)) \<Rightarrow>
               (r, (e'\<lparr>pendingOperations :=
                       AList.delete (filePath @ ''-'' @ direction_string direction)
                         (pendingOperations e')\<rparr>, rest))))"

text \<open>
  Everything that can happen to the engine: a call of a method of \<^verbatim>\<open>SyncManager\<close>,
  a call of one of the functions around it, or an outstanding timer firing. Each call
  comes with the time at which it happens and with what the other writers do.
\<close>

datatype call =
    LockFile string
  | UnlockFile string
  | UpdateFileHash string
  | UpdateRelatedHashes string string
  | Cleanup
  | InitializeFileHashes "string list"
  | HandleFileChange string
  | ScheduleSync string direction
  | PerformSync string direction
  | TimerFires nat


definition apply_call :: "host \<Rightarrow> world \<Rightarrow> int \<Rightarrow> call \<Rightarrow> engine \<Rightarrow> engine" where
  "apply_call h world now c e =
     (case c of
        LockFile p \<Rightarrow> lockFile now p e
      | UnlockFile p \<Rightarrow> unlockFile now p e
      | UpdateFileHash p \<Rightarrow> updateFileHash h (disk world now) now p e
      | UpdateRelatedHashes a b \<Rightarrow> updateRelatedHashes h (disk world now) now a b e
      | Cleanup \<Rightarrow> cleanup e
      | InitializeFileHashes files \<Rightarrow> initializeFileHashes h (disk world now) now files e
      | HandleFileChange p \<Rightarrow> handleFileChange h (disk world now) now p e
      | ScheduleSync p d \<Rightarrow> scheduleSync now p d e
      | PerformSync p d \<Rightarrow> engine_of (performSync h world now p d e)
      | TimerFires n \<Rightarrow>
          (case find (\<lambda>tm. handle tm = n) (timers e) of
             None \<Rightarrow> e
           | Some tm \<Rightarrow> engine_of (run_callback h world now (action tm) (clearTimeout n e))))"

fun run :: "host \<Rightarrow> engine \<Rightarrow> (world \<times> int \<times> call) list \<Rightarrow> engine" where
  "run h e [] = e"
| "run h e ((world, now, c) # rest) = run h (apply_call h world now c e) rest"

subsection \<open>Four invariants of the engine\<close>

text \<open>Every value held in a hash map is truthy: a non-empty string.\<close>

definition all_digests :: "(string \<rightharpoonup> jsval) \<Rightarrow> bool" where
  "all_digests m = (\<forall>p v. m p = Some v \<longrightarrow> truthy v)"

text \<open>
  Every outstanding debounce timer is the one that \<^verbatim>\<open>pendingOperations\<close> holds for
  its key.
\<close>

definition registered :: "engine \<Rightarrow> bool" where
  "registered e =
     (\<forall>tm\<in>set (timers e). \<forall>p d. action tm = CbSync p d \<longrightarrow>
        map_of (pendingOperations e) (p @ ''-'' @ direction_string d) = Some (handle tm))"

text \<open>Every outstanding timer has a handle below the next one \<^verbatim>\<open>setTimeout\<close> gives out.\<close>

definition fresh :: "engine \<Rightarrow> bool" where
  "fresh e = (\<forall>tm\<in>set (timers e). handle tm < next_handle e)"

text \<open>
  Every handle held in \<^verbatim>\<open>pendingOperations\<close> was given out by \<^verbatim>\<open>setTimeout\<close>, and
  an outstanding timer with that handle is a debounce timer.
\<close>

fun is_debounce :: "callback \<Rightarrow> bool" where
  "is_debounce (CbSync p d) = True"
| "is_debounce (CbUnlock p) = False"
| "is_debounce (CbForget p) = False"

definition owned :: "engine \<Rightarrow> bool" where
  "owned e =
     (\<forall>n\<in>snd ` set (pendingOperations e).
        n < next_handle e \<and> (\<forall>tm\<in>set (timers e). handle tm = n \<longrightarrow> is_debounce (action tm)))"

subsection \<open>A concrete session\<close>

text \<open>
  A project in \<^verbatim>\<open>/proj\<close> with one stylesheet in the source tree and an empty target
  tree, a digest that keeps its input apart (it stands for MD5 in the examples), and the
  engine that \<^verbatim>\<open>setupUnifiedWatcher\<close> builds for the two roots.
\<close>

definition example_host :: host where
  "example_host = \<lparr>digest_hex = (\<lambda>content. ''md5:'' @ content), cwd = ''/proj''\<rparr>"

definition style_css :: string where
  "style_css = ''/proj/wp-content/themes/style.css''"

definition style_css_target :: string where
  "style_css_target = ''/proj/wordpress/wp-content/themes/style.css''"

definition example_fs :: filesystem where
  "example_fs =
     [''/proj'' \<mapsto> Dir 0,
      ''/proj/wp-content'' \<mapsto> Dir 0,
      ''/proj/wp-content/themes'' \<mapsto> Dir 0,
      style_css \<mapsto> File ''A'' 5 True,
      ''/proj/wordpress'' \<mapsto> Dir 0,
      ''/proj/wordpress/wp-content'' \<mapsto> Dir 0]"

definition example_engine :: engine where
  "example_engine = constructor ''/proj/wp-content'' ''/proj/wordpress/wp-content''"

text \<open>Nobody else writes: the filesystem stays as it is.\<close>

definition quiet :: "filesystem \<Rightarrow> world" where
  "quiet fs = \<lparr>disk = (\<lambda>t. fs), meanwhile = (\<lambda>copied. copied)\<rparr>"

text \<open>An editor saves the source stylesheet again right after the engine has copied it.\<close>

definition racing_editor :: world where
  "racing_editor =
     \<lparr>disk = (\<lambda>t. example_fs),
      meanwhile = (\<lambda>copied. copied(style_css \<mapsto> File ''B'' 601 True))\<rparr>"

text \<open>The same project with a directory in the place of the target stylesheet.\<close>

definition blocked_fs :: filesystem where
  "blocked_fs =
     example_fs(''/proj/wordpress/wp-content/themes'' \<mapsto> Dir 0, style_css_target \<mapsto> Dir 0)"

text \<open>The engine after \<^verbatim>\<open>initializeFileHashes\<close> has found the stylesheet at time 7.\<close>

definition known_engine :: engine where
  "known_engine = initializeFileHashes example_host example_fs 7 [style_css] example_engine"

text \<open>A file that is empty until 1500ms and holds one byte, untouched, from then on.\<close>

definition late_writer :: "int \<Rightarrow> filesystem" where
  "late_writer t =
     (if t < 1500 then example_fs(style_css \<mapsto> File [] 0 True)
      else example_fs(style_css \<mapsto> File ''A'' 1500 True))"

section \<open>Properties\<close>

lemmas example_defs =
  example_host_def style_css_def style_css_target_def example_fs_def example_engine_def
  constructor_def late_writer_def blocked_fs_def known_engine_def quiet_def racing_editor_def

subsection \<open>Resolved paths are fixed points of \<^verbatim>\<open>path.resolve\<close>\<close>

lemma split_on_not_Nil: "split_on c xs \<noteq> []"
  by (induction xs) (auto split: list.splits)

lemma split_on_prepend:
  "c \<notin> set xs \<Longrightarrow>
   split_on c (xs @ ys) = (xs @ hd (split_on c ys)) # tl (split_on c ys)"
proof (induction xs)
  case Nil
  then show ?case using split_on_not_Nil [of c ys] by (cases "split_on c ys") auto
next
  case (Cons x xs)
  then show ?case by auto
qed

lemma split_on_free: "y \<in> set (split_on c xs) \<Longrightarrow> c \<notin> set y"
  by (induction xs arbitrary: y) (auto split: if_splits list.splits)

lemma plain_split_path: "plain (split_path p)"
  by (auto simp: plain_def split_path_def dest: split_on_free)

lemma split_joined:
  "plain cs \<Longrightarrow>
   hd (split_on CHR ''/'' (concat (map (\<lambda>c. CHR ''/'' # c) cs))) = []
   \<and> filter (\<lambda>c. c \<noteq> []) (split_on CHR ''/'' (concat (map (\<lambda>c. CHR ''/'' # c) cs))) = cs"
proof (induction cs)
  case Nil
  then show ?case by simp
next
  case (Cons c cs)
  then have c: "c \<noteq> []" "CHR ''/'' \<notin> set c" and rest: "plain cs"
    by (auto simp: plain_def)
  let ?rest = "concat (map (\<lambda>c. CHR ''/'' # c) cs)"
  from Cons.IH [OF rest] have hd0: "hd (split_on CHR ''/'' ?rest) = []"
    and fl: "filter (\<lambda>c. c \<noteq> []) (split_on CHR ''/'' ?rest) = cs" by auto
  have ne: "split_on CHR ''/'' ?rest \<noteq> []" by (rule split_on_not_Nil)
  have "filter (\<lambda>c. c \<noteq> []) (tl (split_on CHR ''/'' ?rest)) = cs"
    using hd0 fl ne by (cases "split_on CHR ''/'' ?rest") auto
  then show ?case
    using c hd0 by (simp add: split_on_prepend)
qed

lemma split_path_join: "plain cs \<Longrightarrow> split_path (join_path cs) = cs"
  using split_joined [of cs] by (auto simp: split_path_def join_path_def)

lemma in_set_tl: "x \<in> set (tl xs) \<Longrightarrow> x \<in> set xs"
  by (cases xs) auto

lemma normalize_rev_plain:
  "plain acc \<Longrightarrow> plain cs \<Longrightarrow> plain (normalize_rev acc cs)"
proof (induction cs arbitrary: acc)
  case Nil
  then show ?case by simp
next
  case (Cons c cs)
  have p1: "plain (tl acc)"
    using Cons.prems(1) by (auto simp: plain_def dest: in_set_tl)
  have p2: "plain (c # acc)"
    using Cons.prems by (simp add: plain_def)
  have p3: "plain cs"
    using Cons.prems(2) by (simp add: plain_def)
  have a: "plain (normalize_rev acc cs)" by (rule Cons.IH [OF Cons.prems(1) p3])
  have b: "plain (normalize_rev (tl acc) cs)" by (rule Cons.IH [OF p1 p3])
  have c: "plain (normalize_rev (c # acc) cs)" by (rule Cons.IH [OF p2 p3])
  show ?case using a b c by (simp del: normalize_rev.simps add: normalize_rev.simps(2) [of acc c cs])
qed

lemma normalize_rev_dotless:
  "dotless acc \<Longrightarrow> dotless (normalize_rev acc cs)"
proof (induction cs arbitrary: acc)
  case Nil
  then show ?case by simp
next
  case (Cons c cs)
  have tl: "dotless (tl acc)"
    using Cons.prems by (auto simp: dotless_def dest: in_set_tl)
  have a: "dotless (normalize_rev acc cs)" by (rule Cons.IH [OF Cons.prems])
  have b: "dotless (normalize_rev (tl acc) cs)" by (rule Cons.IH [OF tl])
  show ?case
  proof (cases "c = ''.'' \<or> c = ''..''")
    case True
    then show ?thesis using a b by (auto simp del: normalize_rev.simps simp add: normalize_rev.simps(2) [of acc c cs])
  next
    case False
    then have "dotless (c # acc)" using Cons.prems by (simp add: dotless_def)
    from Cons.IH [OF this] False show ?thesis
      by (simp del: normalize_rev.simps add: normalize_rev.simps(2) [of acc c cs])
  qed
qed

lemma normalize_rev_id: "dotless cs \<Longrightarrow> normalize_rev acc cs = rev cs @ acc"
  by (induction cs arbitrary: acc) (auto simp: dotless_def)

lemma resolved_fixed: "plain (resolved wd p) \<and> dotless (resolved wd p)"
proof -
  have e: "plain []" "dotless []" by (simp_all add: plain_def dotless_def)
  have "plain (normalize_rev [] (split_path q))" for q
    by (rule normalize_rev_plain [OF e(1) plain_split_path])
  moreover have "dotless (normalize_rev [] (split_path q))" for q
    by (rule normalize_rev_dotless [OF e(2)])
  ultimately show ?thesis
    by (simp add: resolved_def normalize_def plain_def dotless_def)
qed

lemma is_absolute_join: "is_absolute (join_path cs)"
  by (cases cs) (auto simp: is_absolute_def join_path_def)

lemma path_resolve_join:
  "plain cs \<Longrightarrow> dotless cs \<Longrightarrow> path_resolve wd (join_path cs) = join_path cs"
  by (simp add: path_resolve_def resolved_def is_absolute_join split_path_join normalize_def
        normalize_rev_id)

lemma path_resolve_idem: "path_resolve wd (path_resolve wd p) = path_resolve wd p"
  using resolved_fixed [of wd p] by (simp add: path_resolve_def [of wd p] path_resolve_join)


subsection \<open>Change detection\<close>

lemma getFileHash_cases:
  "getFileHash h fs p =
     (case fs p of Some (File content m True) \<Rightarrow> Str (digest_hex h content) | _ \<Rightarrow> Null)"
  by (simp add: getFileHash_def existsSync_def readFileSync_def
        split: option.splits node.splits bool.splits)

lemma example_digest: "digest_hex example_host content \<noteq> []"
  by (simp add: example_host_def)

text \<open>
  Claim C7. \<^verbatim>\<open>hasFileChanged\<close> holds of a path exactly when \<^verbatim>\<open>getFileHash\<close>
  of the path is not \<^verbatim>\<open>null\<close> and differs from what the hash map holds for the path
  (\<^verbatim>\<open>undefined\<close> when it holds nothing). When the hash is \<^verbatim>\<open>null\<close>, which is
  what a missing file and every read error give, the path is not reported as changed.
\<close>

theorem hasFileChanged_iff:
  "(hasFileChanged h fs e p \<longleftrightarrow>
      getFileHash h fs p \<noteq> Null \<and> getFileHash h fs p \<noteq> map_get (fileHashes e) p)
   \<and> (getFileHash h fs p = Null \<longrightarrow> \<not> hasFileChanged h fs e p)
   \<and> (\<not> existsSync fs p \<or> (\<exists>err. readFileSync fs p = Inl err) \<longrightarrow> getFileHash h fs p = Null)"
  by (auto simp: hasFileChanged_def Let_def getFileHash_def)

theorem hasFileChanged_iff_witness:
  "\<not> existsSync example_fs ''/proj/wp-content/gone.php''
   \<and> getFileHash example_host example_fs ''/proj/wp-content/gone.php'' = Null
   \<and> \<not> hasFileChanged example_host example_fs example_engine ''/proj/wp-content/gone.php''
   \<and> hasFileChanged example_host example_fs example_engine style_css"
  using hasFileChanged_iff [of example_host example_fs example_engine "''/proj/wp-content/gone.php''"]
        hasFileChanged_iff [of example_host example_fs example_engine style_css]
  by (simp add: existsSync_def example_defs getFileHash_cases map_get_def)

text \<open>
  Claim C10. A path with no entry in the hash map whose content can be read counts as
  changed: a file created after startup, or missed by \<^verbatim>\<open>initializeFileHashes\<close>,
  passes the change gate on its first event.
\<close>

theorem unknown_path_counts_as_changed:
  "fileHashes e p = None \<Longrightarrow> readFileSync fs p = Inr content \<Longrightarrow> hasFileChanged h fs e p"
  by (auto simp: hasFileChanged_def Let_def getFileHash_def existsSync_def readFileSync_def map_get_def
      split: option.splits)

theorem unknown_path_counts_as_changed_witness:
  "fileHashes example_engine style_css = None
   \<and> readFileSync example_fs style_css = Inr ''A''
   \<and> hasFileChanged example_host example_fs example_engine style_css"
proof -
  have a: "fileHashes example_engine style_css = None"
    by (simp add: example_defs)
  have b: "readFileSync example_fs style_css = Inr ''A''"
    by (simp add: readFileSync_def example_defs)
  show ?thesis using a b unknown_path_counts_as_changed [OF a b] by simp
qed

subsection \<open>The pair update\<close>

text \<open>
  Claim C3. \<^verbatim>\<open>updateRelatedHashes\<close> recomputes the hashes of both paths. When both
  are present and equal it stores the hash and the time for both paths; when one is
  absent or they differ it returns the manager as it was. The digest is assumed to be
  non-empty, as a hex digest is.
\<close>

theorem updateRelatedHashes_commits_iff:
  assumes "\<And>content. digest_hex h content \<noteq> []"
  shows "updateRelatedHashes h fs now a b e =
     (if getFileHash h fs a \<noteq> Null \<and> getFileHash h fs b \<noteq> Null
         \<and> getFileHash h fs a = getFileHash h fs b
      then e\<lparr>fileHashes := (fileHashes e)(a \<mapsto> getFileHash h fs a, b \<mapsto> getFileHash h fs b),
             lastSyncTime := (lastSyncTime e)(a \<mapsto> now, b \<mapsto> now)\<rparr>
      else e)"
  using assms
  by (auto simp: updateRelatedHashes_def Let_def getFileHash_cases
      split: option.splits node.splits bool.splits)

theorem updateRelatedHashes_commits_iff_witness:
  "fileHashes (updateRelatedHashes example_host (example_fs(style_css_target \<mapsto> File ''A'' 600 True))
       600 style_css style_css_target example_engine) style_css_target = Some (Str ''md5:A'')
   \<and> lastSyncTime (updateRelatedHashes example_host (example_fs(style_css_target \<mapsto> File ''A'' 600 True))
       600 style_css style_css_target example_engine) style_css = Some 600
   \<and> updateRelatedHashes example_host (example_fs(style_css_target \<mapsto> File ''B'' 600 True))
       600 style_css style_css_target example_engine = example_engine
   \<and> updateRelatedHashes example_host example_fs 600 style_css style_css_target example_engine
       = example_engine"
  using updateRelatedHashes_commits_iff [OF example_digest, of
          "example_fs(style_css_target \<mapsto> File ''A'' 600 True)" 600 style_css style_css_target example_engine]
        updateRelatedHashes_commits_iff [OF example_digest, of
          "example_fs(style_css_target \<mapsto> File ''B'' 600 True)" 600 style_css style_css_target example_engine]
        updateRelatedHashes_commits_iff [OF example_digest, of
          example_fs 600 style_css style_css_target example_engine]
  by (simp add: getFileHash_cases example_defs)

subsection \<open>Teardown\<close>

lemma fold_clearTimeout:
  "fold clearTimeout hs e = e\<lparr>timers := filter (\<lambda>tm. handle tm \<notin> set hs) (timers e)\<rparr>"
proof (induction hs arbitrary: e)
  case Nil
  then show ?case by simp
next
  case (Cons a hs)
  have "fold clearTimeout (a # hs) e = fold clearTimeout hs (clearTimeout a e)"
    by simp
  also have "\<dots> = (clearTimeout a e)
      \<lparr>timers := filter (\<lambda>tm. handle tm \<notin> set hs) (timers (clearTimeout a e))\<rparr>"
    by (rule Cons.IH)
  also have "\<dots> = e\<lparr>timers := filter (\<lambda>tm. handle tm \<notin> set (a # hs)) (timers e)\<rparr>"
    by (simp add: clearTimeout_def conj_commute)
  finally show ?case .
qed

lemma cleanup_unfolded:
  "cleanup e =
     e\<lparr>timers := filter (\<lambda>tm. handle tm \<notin> snd ` set (pendingOperations e)) (timers e),
       pendingOperations := [], syncingFiles := {}, recentlySynced := {}\<rparr>"
  by (simp add: cleanup_def fold_clearTimeout)

subsection \<open>The stability prober\<close>

text \<open>
  Claim C6, as the code has it. A probe that finds the file with size zero waits 500ms
  and goes on with the next attempt: the \<^verbatim>\<open>continue\<close> runs the increment of the
  loop, so the probe uses up one attempt of the budget (and skips the wait of 1000ms
  between attempts). On the last attempt the prober returns false 500ms later.
\<close>

theorem zero_size_consumes_attempt:
  assumes "attempt \<le> maxAttempts"
      and "statSync (world t) filePath = Inr st"
      and "st_size st = 0"
  shows "isFileStable world t filePath attempt maxAttempts =
           isFileStable world (t + 500) filePath (attempt + 1) maxAttempts
         \<and> (attempt = maxAttempts \<longrightarrow>
              isFileStable world t filePath attempt maxAttempts = (False, t + 500))"
proof -
  have ex: "existsSync (world t) filePath"
    using assms(2) by (auto simp: existsSync_def statSync_def split: option.splits)
  have p: "probe_once world t filePath = Continued (t + 500)"
    using ex assms(2,3) by (simp add: probe_once_def)
  have step: "isFileStable world t filePath attempt maxAttempts =
           isFileStable world (t + 500) filePath (attempt + 1) maxAttempts"
    using assms(1) p by (subst isFileStable.simps) simp
  have "isFileStable world (t + 500) filePath (maxAttempts + 1) maxAttempts = (False, t + 500)"
    by (subst isFileStable.simps) simp
  with step show ?thesis by auto
qed

theorem zero_size_consumes_attempt_witness:
  "statSync (late_writer 0) style_css = Inr \<lparr>st_size = 0, st_mtime = 0\<rparr>
   \<and> isFileStable late_writer 0 style_css 1 3 = isFileStable late_writer 500 style_css 2 3
   \<and> isFileStable late_writer 1000 style_css 3 3 = (False, 1500)"
proof -
  have a: "statSync (late_writer 0) style_css = Inr \<lparr>st_size = 0, st_mtime = 0\<rparr>"
    by (simp add: statSync_def example_defs)
  have b: "statSync (late_writer 1000) style_css = Inr \<lparr>st_size = 0, st_mtime = 0\<rparr>"
    by (simp add: statSync_def example_defs)
  have c: "isFileStable late_writer 0 style_css 1 3 = isFileStable late_writer 500 style_css 2 3"
    using a
      zero_size_consumes_attempt [of 1 3 late_writer 0 style_css "\<lparr>st_size = 0, st_mtime = 0\<rparr>",
        THEN conjunct1]
    by (simp add: numeral_2_eq_2)
  have d: "isFileStable late_writer 1000 style_css 3 3 = (False, 1500)"
    using b
      zero_size_consumes_attempt [of 3 3 late_writer 1000 style_css "\<lparr>st_size = 0, st_mtime = 0\<rparr>",
        THEN conjunct2]
    by simp
  show ?thesis using a c d by simp
qed

text \<open>
  Claim C6 as stated fails. The file is empty at the probes of 0ms, 500ms and 1000ms and
  holds one untouched byte from 1500ms on. The three zero-size probes use up the budget
  of three attempts and the prober returns false at 1500ms, although a prober started
  with its full budget at 1500ms finds the file stable; and the probe of the last attempt
  at 1000ms does not give the result of the same attempt retried at 1500ms.
\<close>

theorem zero_size_exhausts_budget:
  "statSync (late_writer 1000) style_css = Inr \<lparr>st_size = 0, st_mtime = 0\<rparr>
   \<and> isFileStable late_writer 0 style_css 1 3 = (False, 1500)
   \<and> isFileStable late_writer 1500 style_css 1 3 = (True, 2000)
   \<and> isFileStable late_writer 1000 style_css 3 3 \<noteq> isFileStable late_writer 1500 style_css 3 3"
  by code_simp

subsection \<open>What each operation leaves alone\<close>

lemma setTimeout_frame [simp]:
  "fileHashes (snd (setTimeout cb delay now e)) = fileHashes e"
  "lastSyncTime (snd (setTimeout cb delay now e)) = lastSyncTime e"
  "sourcePath (snd (setTimeout cb delay now e)) = sourcePath e"
  "targetPath (snd (setTimeout cb delay now e)) = targetPath e"
  "pendingOperations (snd (setTimeout cb delay now e)) = pendingOperations e"
  "syncingFiles (snd (setTimeout cb delay now e)) = syncingFiles e"
  "recentlySynced (snd (setTimeout cb delay now e)) = recentlySynced e"
  by (simp_all add: setTimeout_def)

lemma clearTimeout_frame [simp]:
  "fileHashes (clearTimeout n e) = fileHashes e"
  "lastSyncTime (clearTimeout n e) = lastSyncTime e"
  "sourcePath (clearTimeout n e) = sourcePath e"
  "targetPath (clearTimeout n e) = targetPath e"
  "pendingOperations (clearTimeout n e) = pendingOperations e"
  "syncingFiles (clearTimeout n e) = syncingFiles e"
  "recentlySynced (clearTimeout n e) = recentlySynced e"
  by (simp_all add: clearTimeout_def)

lemma lockFile_frame [simp]:
  "fileHashes (lockFile now p e) = fileHashes e"
  "lastSyncTime (lockFile now p e) = lastSyncTime e"
  "sourcePath (lockFile now p e) = sourcePath e"
  "targetPath (lockFile now p e) = targetPath e"
  "pendingOperations (lockFile now p e) = pendingOperations e"
  by (simp_all add: lockFile_def)

lemma unlockFile_frame [simp]:
  "fileHashes (unlockFile now p e) = fileHashes e"
  "lastSyncTime (unlockFile now p e) = lastSyncTime e"
  "sourcePath (unlockFile now p e) = sourcePath e"
  "targetPath (unlockFile now p e) = targetPath e"
  "pendingOperations (unlockFile now p e) = pendingOperations e"
  by (simp_all add: unlockFile_def)

lemma scheduleSync_frame [simp]:
  "fileHashes (scheduleSync now p d e) = fileHashes e"
  "lastSyncTime (scheduleSync now p d e) = lastSyncTime e"
  "sourcePath (scheduleSync now p d e) = sourcePath e"
  "targetPath (scheduleSync now p d e) = targetPath e"
  by (simp_all add: scheduleSync_def Let_def setTimeout_def split: option.splits prod.splits)

lemma handleFileChange_frame [simp]:
  "fileHashes (handleFileChange h fs now p e) = fileHashes e"
  "lastSyncTime (handleFileChange h fs now p e) = lastSyncTime e"
  by (simp_all add: handleFileChange_def Let_def)

lemma cleanup_frame [simp]:
  "fileHashes (cleanup e) = fileHashes e"
  "lastSyncTime (cleanup e) = lastSyncTime e"
  by (simp_all add: cleanup_def fold_clearTimeout)

lemma hasFileChanged_cong:
  "fileHashes e' = fileHashes e \<Longrightarrow> hasFileChanged h fs e' p = hasFileChanged h fs e p"
  by (simp add: hasFileChanged_def)

lemma getSyncPaths_cong:
  "sourcePath e' = sourcePath e \<Longrightarrow> targetPath e' = targetPath e \<Longrightarrow>
   getSyncPaths h p d e' = getSyncPaths h p d e"
  by (simp add: getSyncPaths_def)

lemma getSyncPaths_fst: "fst (getSyncPaths h p d e) = path_resolve (cwd h) p"
  by (simp add: getSyncPaths_def Let_def)


subsection \<open>The four ways through \<^verbatim>\<open>performSync\<close>\<close>

text \<open>
  The \<^verbatim>\<open>try\<close> block ends in one of four ways: the path was locked; the file was not
  stable or not changed; \<^verbatim>\<open>mkdirSync\<close> or \<^verbatim>\<open>copyFileSync\<close> threw; or the copy
  was made and the pair update ran.
\<close>

lemma performSync_try_cases [case_names locked idle failed synced]:
  fixes h world t0 p d e
  defines "e1 \<equiv> lockFile t0 p e"
  defines "a \<equiv> fst (getSyncPaths h p d e)"
  defines "b \<equiv> snd (getSyncPaths h p d e)"
  defines "t1 \<equiv> snd (isFileStable (disk world) t0 a 1 3)"
  obtains
    (locked) "isFileLocked e p"
      "performSync_try h world t0 p d e = (Inr (), (e, disk world t0, [], t0))"
  | (idle) "\<not> isFileLocked e p"
      "\<not> fst (isFileStable (disk world) t0 a 1 3) \<or> \<not> hasFileChanged h (disk world t1) e a"
      "performSync_try h world t0 p d e = (Inr (), (e1, disk world t1, [], t1))"
  | (failed) err fs2 where "\<not> isFileLocked e p" "hasFileChanged h (disk world t1) e a"
      "performSync_try h world t0 p d e = (Inl err, (e1, fs2, [], t1))"
  | (synced) fs2 fs3 where "\<not> isFileLocked e p" "fst (isFileStable (disk world) t0 a 1 3)"
      "hasFileChanged h (disk world t1) e a"
      "copyFileSync t1 a b fs2 = Inr fs3"
      "performSync_try h world t0 p d e =
         (Inr (), (updateRelatedHashes h (meanwhile world fs3) t1 a b e1, meanwhile world fs3,
                   [Notice_synced d (path_relative (cwd h) (cwd h) a)], t1))"
proof -
  have g: "getSyncPaths h p d e1 = (a, b)"
    using getSyncPaths_cong [of "lockFile t0 p e" e h p d]
    by (simp add: e1_def a_def b_def)
  have c: "hasFileChanged h fs e1 q = hasFileChanged h fs e q" for fs q
    unfolding e1_def by (rule hasFileChanged_cong) simp
  obtain stable where s: "isFileStable (disk world) t0 a 1 3 = (stable, t1)"
    by (simp add: t1_def prod_eq_iff)
  show thesis
  proof (cases "isFileLocked e p")
    case True
    then show ?thesis using locked by (simp add: performSync_try_def)
  next
    case unlocked: False
    show ?thesis
    proof (cases "stable \<and> hasFileChanged h (disk world t1) e a")
      case False
      then have "performSync_try h world t0 p d e = (Inr (), (e1, disk world t1, [], t1))"
        using unlocked g s c by (auto simp: performSync_try_def e1_def [symmetric] Let_def)
      with False unlocked s show ?thesis using idle by auto
    next
      case go: True
      define made where
        "made = (if \<not> existsSync (disk world t1) (path_dirname b)
                 then mkdirSync t1 (path_dirname b) (disk world t1) else Inr (disk world t1))"
      have body: "performSync_try h world t0 p d e =
          (case made of
             Inl err \<Rightarrow> (Inl err, (e1, disk world t1, [], t1))
           | Inr fs2 \<Rightarrow>
               (case copyFileSync t1 a b fs2 of
                  Inl err \<Rightarrow> (Inl err, (e1, fs2, [], t1))
                | Inr fs3 \<Rightarrow>
                    (Inr (), (updateRelatedHashes h (meanwhile world fs3) t1 a b e1, meanwhile world fs3,
                              [Notice_synced d (path_relative (cwd h) (cwd h) a)], t1))))"
        using unlocked g s c go
        by (simp add: performSync_try_def e1_def [symmetric] Let_def made_def split: sum.splits)
      show ?thesis
      proof (cases made)
        case (Inl err)
        with body have "performSync_try h world t0 p d e = (Inl err, (e1, disk world t1, [], t1))"
          by simp
        with go unlocked show ?thesis using failed by auto
      next
        case (Inr fs2)
        show ?thesis
        proof (cases "copyFileSync t1 a b fs2")
          case (Inl err)
          with body Inr have "performSync_try h world t0 p d e = (Inl err, (e1, fs2, [], t1))"
            by simp
          with go unlocked show ?thesis using failed by auto
        next
          case copied: (Inr fs3)
          with body Inr have "performSync_try h world t0 p d e =
             (Inr (), (updateRelatedHashes h (meanwhile world fs3) t1 a b e1, meanwhile world fs3,
                   [Notice_synced d (path_relative (cwd h) (cwd h) a)], t1))"
            by simp
          with go unlocked copied s show ?thesis using synced by auto
        qed
      qed
    qed
  qed
qed


lemma performSync_unfold:
  "performSync h world t0 filePath d e =
     (case performSync_try h world t0 (path_resolve (cwd h) filePath) d e of
        (Inl err, (e', fs, out, t)) \<Rightarrow>
          (Inr (), (snd (setTimeout (CbUnlock (path_resolve (cwd h) filePath)) 1000 t e'), fs,
                    out @ [Notice_error err], t))
      | (Inr v, (e', fs, out, t)) \<Rightarrow>
          (Inr v, (snd (setTimeout (CbUnlock (path_resolve (cwd h) filePath)) 1000 t e'), fs,
                   out, t)))"
  by (simp add: performSync_def try_catch_finally_def Let_def split: prod.splits sum.splits)



text \<open>
  Claim C4. When \<^verbatim>\<open>hasFileChanged\<close> is false of the path on the filesystem of the
  time the cycle ends (the time of the re-check, when the cycle reaches it),
  \<^verbatim>\<open>performSync\<close> writes nothing: the filesystem is the one it found, the hash map and
  the sync times are those of before the call, and the console stays empty.
\<close>

theorem unchanged_file_is_not_copied:
  fixes h world t0 filePath d e
  defines "res \<equiv> performSync h world t0 filePath d e"
  assumes "\<not> hasFileChanged h (disk world (clock_of res)) e (path_resolve (cwd h) filePath)"
  shows "files_of res = disk world (clock_of res)
         \<and> fileHashes (engine_of res) = fileHashes e
         \<and> lastSyncTime (engine_of res) = lastSyncTime e
         \<and> console_of res = []"
proof (cases rule: performSync_try_cases [of e "path_resolve (cwd h) filePath" h world t0 d])
  case locked
  then show ?thesis
    by (simp add: res_def performSync_unfold files_of_def clock_of_def engine_of_def console_of_def)
next
  case idle
  then show ?thesis
    by (simp add: res_def performSync_unfold files_of_def clock_of_def engine_of_def console_of_def)
next
  case (failed err fs2)
  then have "clock_of res =
      snd (isFileStable (disk world) t0 (fst (getSyncPaths h (path_resolve (cwd h) filePath) d e)) 1 3)"
    by (simp add: res_def performSync_unfold clock_of_def)
  with failed(2) assms(2) show ?thesis
    by (simp add: getSyncPaths_fst path_resolve_idem)
next
  case (synced fs2 fs3)
  then have "clock_of res =
      snd (isFileStable (disk world) t0 (fst (getSyncPaths h (path_resolve (cwd h) filePath) d e)) 1 3)"
    by (simp add: res_def performSync_unfold clock_of_def)
  with synced(3) assms(2) show ?thesis
    by (simp add: getSyncPaths_fst path_resolve_idem)
qed

theorem unchanged_file_is_not_copied_witness:
  "\<not> hasFileChanged example_host example_fs known_engine style_css
   \<and> clock_of (performSync example_host (quiet example_fs) 100 style_css SourceToTarget known_engine) = 600
   \<and> files_of (performSync example_host (quiet example_fs) 100 style_css SourceToTarget known_engine)
       = example_fs
   \<and> fileHashes (engine_of (performSync example_host (quiet example_fs) 100 style_css
         SourceToTarget known_engine)) = fileHashes known_engine
   \<and> console_of (performSync example_host (quiet example_fs) 100 style_css SourceToTarget
         known_engine) = []"
proof -
  have a: "\<not> hasFileChanged example_host example_fs known_engine style_css"
    by code_simp
  have b: "clock_of (performSync example_host (quiet example_fs) 100 style_css SourceToTarget
      known_engine) = 600"
    by code_simp
  have c: "path_resolve (cwd example_host) style_css = style_css"
    by code_simp
  have q: "disk (quiet example_fs) t = example_fs" for t
    by (simp add: quiet_def)
  show ?thesis
    using a b unchanged_file_is_not_copied [of example_host "quiet example_fs" 100 style_css
        SourceToTarget known_engine]
    by (simp add: c q)
qed

subsection \<open>Stored hashes are digests\<close>

lemma all_digests_empty: "all_digests Map.empty"
  by (simp add: all_digests_def)

lemma updateFileHash_digests:
  "all_digests (fileHashes e) \<Longrightarrow> all_digests (fileHashes (updateFileHash h fs now p e))"
  by (auto simp: all_digests_def updateFileHash_def Let_def)

lemma updateRelatedHashes_digests:
  "all_digests (fileHashes e) \<Longrightarrow> all_digests (fileHashes (updateRelatedHashes h fs now a b e))"
  by (auto simp: all_digests_def updateRelatedHashes_def Let_def)

lemma initializeFileHashes_digests:
  "all_digests (fileHashes e) \<Longrightarrow> all_digests (fileHashes (initializeFileHashes h fs now files e))"
  unfolding initializeFileHashes_def
  by (induction files arbitrary: e) (simp_all add: updateFileHash_digests)

lemma performSync_digests:
  assumes "all_digests (fileHashes e)"
  shows "all_digests (fileHashes (engine_of (performSync h world t0 filePath d e)))"
proof (cases rule: performSync_try_cases [of e "path_resolve (cwd h) filePath" h world t0 d])
  case (synced fs2 fs3)
  then show ?thesis
    using assms updateRelatedHashes_digests [of "lockFile t0 (path_resolve (cwd h) filePath) e"]
    by (simp add: performSync_unfold engine_of_def)
qed (use assms in \<open>simp_all add: performSync_unfold engine_of_def\<close>)

lemma run_callback_digests:
  assumes "all_digests (fileHashes e)"
  shows "all_digests (fileHashes (engine_of (run_callback h world now cb e)))"
proof (cases cb)
  case (CbSync p d)
  obtain r e' rest where r: "performSync h world now p d e = (r, (e', rest))"
    by (metis prod.exhaust)
  then have "all_digests (fileHashes e')"
    using performSync_digests [OF assms, of h world now p d] by (simp add: engine_of_def)
  with r CbSync show ?thesis by (simp add: run_callback_def engine_of_def)
qed (use assms in \<open>simp_all add: run_callback_def engine_of_def\<close>)

lemma apply_call_digests:
  assumes "all_digests (fileHashes e)"
  shows "all_digests (fileHashes (apply_call h world now c e))"
proof (cases c)
  case (TimerFires n)
  have "all_digests (fileHashes (clearTimeout n e))" using assms by simp
  then show ?thesis
    using assms TimerFires run_callback_digests
    by (simp add: apply_call_def split: option.splits)
qed (use assms in \<open>simp_all add: apply_call_def updateFileHash_digests
      updateRelatedHashes_digests initializeFileHashes_digests performSync_digests\<close>)

lemma run_digests:
  "all_digests (fileHashes e) \<Longrightarrow> all_digests (fileHashes (run h e calls))"
  by (induction calls arbitrary: e) (auto simp: apply_call_digests)

text \<open>
  Claim C9. The hash map never holds an absent hash. From the manager the constructor
  builds, after any sequence of calls (the methods of \<^verbatim>\<open>SyncManager\<close>, the functions
  around it and timers firing, at any times and on any filesystems), every value the hash
  map holds is a digest: a non-empty string, never \<^verbatim>\<open>null\<close> or \<^verbatim>\<open>undefined\<close>.
\<close>

theorem stored_hashes_are_digests:
  "fileHashes (run h (constructor sourceRoot targetRoot) calls) p = Some v
   \<Longrightarrow> \<exists>digest. v = Str digest \<and> digest \<noteq> []"
proof -
  assume stored: "fileHashes (run h (constructor sourceRoot targetRoot) calls) p = Some v"
  have "all_digests (fileHashes (constructor sourceRoot targetRoot))"
    by (simp add: constructor_def all_digests_empty)
  then have "all_digests (fileHashes (run h (constructor sourceRoot targetRoot) calls))"
    by (rule run_digests)
  with stored have "truthy v" by (auto simp: all_digests_def)
  then show ?thesis by (cases v) auto
qed

theorem stored_hashes_are_digests_witness:
  "fileHashes (run example_host (constructor ''/proj/wp-content'' ''/proj/wordpress/wp-content'')
      [(quiet example_fs, 7, InitializeFileHashes [style_css, ''/proj/wp-content/gone.php'']),
       (quiet (example_fs(style_css \<mapsto> File ''B'' 50 True)), 100, PerformSync style_css SourceToTarget),
       (quiet example_fs, 1600, TimerFires 1)]) style_css = Some (Str ''md5:B'')
   \<and> (\<exists>digest. Str ''md5:B'' = Str digest \<and> digest \<noteq> [])"
proof -
  have a: "fileHashes (run example_host (constructor ''/proj/wp-content'' ''/proj/wordpress/wp-content'')
      [(quiet example_fs, 7, InitializeFileHashes [style_css, ''/proj/wp-content/gone.php'']),
       (quiet (example_fs(style_css \<mapsto> File ''B'' 50 True)), 100, PerformSync style_css SourceToTarget),
       (quiet example_fs, 1600, TimerFires 1)]) style_css = Some (Str ''md5:B'')"
    by code_simp
  show ?thesis using a stored_hashes_are_digests [OF a] by simp
qed

subsection \<open>Debounce timers are registered\<close>

lemma registered_constructor: "registered (constructor s t)"
  by (simp add: registered_def constructor_def)

lemma registered_more_timers:
  assumes "registered e"
      and "pendingOperations e' = pendingOperations e"
      and "\<And>tm. tm \<in> set (timers e') \<Longrightarrow> tm \<in> set (timers e) \<or> (\<forall>p d. action tm \<noteq> CbSync p d)"
  shows "registered e'"
  using assms unfolding registered_def by metis

lemma registered_setTimeout:
  "registered e \<Longrightarrow> (\<And>p d. cb \<noteq> CbSync p d) \<Longrightarrow> registered (snd (setTimeout cb delay now e))"
  by (rule registered_more_timers [of e]) (auto simp: setTimeout_def)

lemma registered_clearTimeout: "registered e \<Longrightarrow> registered (clearTimeout n e)"
  by (rule registered_more_timers [of e]) (auto simp: clearTimeout_def)

lemma registered_lockFile: "registered e \<Longrightarrow> registered (lockFile now p e)"
  unfolding lockFile_def
  by (rule registered_setTimeout) (auto simp: registered_def)

lemma registered_unlockFile: "registered e \<Longrightarrow> registered (unlockFile now p e)"
  unfolding unlockFile_def
  by (rule registered_setTimeout) (auto simp: registered_def)

lemma registered_updateFileHash: "registered e \<Longrightarrow> registered (updateFileHash h fs now p e)"
  by (simp add: registered_def updateFileHash_def Let_def)

lemma registered_updateRelatedHashes:
  "registered e \<Longrightarrow> registered (updateRelatedHashes h fs now a b e)"
  by (simp add: registered_def updateRelatedHashes_def Let_def)

lemma registered_initializeFileHashes:
  "registered e \<Longrightarrow> registered (initializeFileHashes h fs now files e)"
  unfolding initializeFileHashes_def
  by (induction files arbitrary: e) (simp_all add: registered_updateFileHash)

lemma registered_cleanup: "registered e \<Longrightarrow> registered (cleanup e)"
proof -
  assume r: "registered e"
  have "\<forall>p d. action tm \<noteq> CbSync p d"
    if "tm \<in> set (timers e)" "handle tm \<notin> snd ` set (pendingOperations e)" for tm
  proof (intro allI notI)
    fix p d assume "action tm = CbSync p d"
    with r that(1)
    have "map_of (pendingOperations e) (p @ ''-'' @ direction_string d) = Some (handle tm)"
      by (auto simp: registered_def)
    then have "(p @ ''-'' @ direction_string d, handle tm) \<in> set (pendingOperations e)"
      by (rule map_of_SomeD)
    then have "handle tm \<in> snd ` set (pendingOperations e)" by force
    with that(2) show False by simp
  qed
  then show ?thesis
    by (auto simp: registered_def cleanup_unfolded)
qed

text \<open>One call of \<^verbatim>\<open>scheduleSync\<close>: its timers and its pending operations.\<close>

lemma scheduleSync_timers:
  "timers (scheduleSync now p d e) =
     filter (\<lambda>tm. map_of (pendingOperations e) (p @ ''-'' @ direction_string d) \<noteq> Some (handle tm))
       (timers e)
     @ [\<lparr>handle = next_handle e, due = now + (if d = TargetToSource then 4000 else 2000),
         action = CbSync p d\<rparr>]"
  by (auto simp: scheduleSync_def Let_def setTimeout_def clearTimeout_def
      split: option.splits intro: filter_cong)

lemma scheduleSync_pending:
  "pendingOperations (scheduleSync now p d e) =
     AList.update (p @ ''-'' @ direction_string d) (next_handle e) (pendingOperations e)"
  by (simp add: scheduleSync_def Let_def setTimeout_def clearTimeout_def split: option.splits)

lemma registered_scheduleSync:
  assumes "registered e"
  shows "registered (scheduleSync now p d e)"
  unfolding registered_def
proof (intro ballI allI impI)
  fix tm p' d'
  assume tm: "tm \<in> set (timers (scheduleSync now p d e))" and act: "action tm = CbSync p' d'"
  let ?key = "p @ ''-'' @ direction_string d" and ?key' = "p' @ ''-'' @ direction_string d'"
  from tm consider
      (new) "tm = \<lparr>handle = next_handle e,
                  due = now + (if d = TargetToSource then 4000 else 2000), action = CbSync p d\<rparr>"
    | (old) "tm \<in> set (timers e)" "map_of (pendingOperations e) ?key \<noteq> Some (handle tm)"
    by (auto simp: scheduleSync_timers)
  then show "map_of (pendingOperations (scheduleSync now p d e)) ?key' = Some (handle tm)"
  proof cases
    case new
    with act show ?thesis by (simp add: scheduleSync_pending update_conv')
  next
    case old
    with assms act have reg: "map_of (pendingOperations e) ?key' = Some (handle tm)"
      by (auto simp: registered_def)
    with old(2) have "?key' \<noteq> ?key" by auto
    with reg show ?thesis by (simp add: scheduleSync_pending update_conv')
  qed
qed

lemma scheduleSync_single:
  assumes "registered e"
  shows "filter (\<lambda>tm. action tm = CbSync p d) (timers (scheduleSync now p d e)) =
           [\<lparr>handle = next_handle e, due = now + (if d = TargetToSource then 4000 else 2000),
             action = CbSync p d\<rparr>]
         \<and> map_of (pendingOperations (scheduleSync now p d e)) (p @ ''-'' @ direction_string d)
             = Some (next_handle e)"
proof -
  have "filter (\<lambda>tm. action tm = CbSync p d)
          (filter (\<lambda>tm. map_of (pendingOperations e) (p @ ''-'' @ direction_string d)
                          \<noteq> Some (handle tm)) (timers e)) = []"
    using assms by (auto simp: registered_def filter_empty_conv)
  then show ?thesis
    by (simp add: scheduleSync_timers scheduleSync_pending update_conv')
qed

lemma registered_handleFileChange:
  "registered e \<Longrightarrow> registered (handleFileChange h fs now p e)"
  by (simp add: handleFileChange_def Let_def registered_scheduleSync)

lemma registered_performSync:
  assumes "registered e"
  shows "registered (engine_of (performSync h world start filePath d e))"
proof -
  let ?p = "path_resolve (cwd h) filePath"
  have fin: "registered (snd (setTimeout (CbUnlock ?p) 1000 t x))" if "registered x" for x t
    using that by (rule registered_setTimeout) simp
  have locked: "registered (lockFile start ?p e)"
    using assms by (rule registered_lockFile)
  show ?thesis
  proof (cases rule: performSync_try_cases [of e ?p h world start d])
    case locked
    then show ?thesis using fin [OF assms] by (simp add: performSync_unfold engine_of_def)
  next
    case idle
    then show ?thesis
      using fin [OF \<open>registered (lockFile start ?p e)\<close>]
      by (simp add: performSync_unfold engine_of_def)
  next
    case (failed err fs2)
    then show ?thesis
      using fin [OF \<open>registered (lockFile start ?p e)\<close>]
      by (simp add: performSync_unfold engine_of_def)
  next
    case (synced fs2 fs3)
    then show ?thesis
      using fin [OF registered_updateRelatedHashes [OF \<open>registered (lockFile start ?p e)\<close>]]
      by (simp add: performSync_unfold engine_of_def)
  qed
qed

lemma performSync_timers:
  "pendingOperations (engine_of (performSync h world start filePath d e)) = pendingOperations e
   \<and> (\<forall>tm\<in>set (timers (engine_of (performSync h world start filePath d e))).
         tm \<in> set (timers e) \<or> (\<exists>q. action tm = CbUnlock q))"
proof -
  have u: "pendingOperations (updateRelatedHashes h fs now a b x) = pendingOperations x
           \<and> timers (updateRelatedHashes h fs now a b x) = timers x" for fs now a b x
    by (simp add: updateRelatedHashes_def Let_def)
  show ?thesis
    by (cases rule: performSync_try_cases [of e "path_resolve (cwd h) filePath" h world start d])
       (auto simp: performSync_unfold engine_of_def setTimeout_def lockFile_def u)
qed

lemma registered_drop_key:
  assumes "registered e"
      and "\<And>tm p d. tm \<in> set (timers e) \<Longrightarrow> action tm = CbSync p d
             \<Longrightarrow> p @ ''-'' @ direction_string d \<noteq> key"
  shows "registered (e\<lparr>pendingOperations := AList.delete key (pendingOperations e)\<rparr>)"
  unfolding registered_def
proof (intro ballI allI impI)
  fix tm p d
  assume "tm \<in> set (timers (e\<lparr>pendingOperations := AList.delete key (pendingOperations e)\<rparr>))"
    and act: "action tm = CbSync p d"
  then have tm: "tm \<in> set (timers e)" by simp
  with assms(1) act
  have reg: "map_of (pendingOperations e) (p @ ''-'' @ direction_string d) = Some (handle tm)"
    by (auto simp: registered_def)
  from assms(2) [OF tm act] reg
  show "map_of (pendingOperations (e\<lparr>pendingOperations := AList.delete key (pendingOperations e)\<rparr>))
          (p @ ''-'' @ direction_string d) = Some (handle tm)"
    by (simp add: delete_conv')
qed

lemma registered_run_callback:
  assumes reg: "registered e" and fired: "fired \<in> set (timers e)"
  shows "registered (engine_of (run_callback h world now (action fired)
           (clearTimeout (handle fired) e)))"
proof (cases "action fired")
  case (CbUnlock q)
  then show ?thesis
    using registered_unlockFile [OF registered_clearTimeout [OF reg]]
    by (simp add: run_callback_def engine_of_def)
next
  case (CbForget q)
  have "registered ((clearTimeout (handle fired) e)
          \<lparr>recentlySynced := recentlySynced (clearTimeout (handle fired) e) - {q}\<rparr>)"
    using registered_clearTimeout [OF reg, of "handle fired"] by (simp add: registered_def)
  with CbForget show ?thesis by (simp add: run_callback_def engine_of_def)
next
  case (CbSync p d)
  let ?e1 = "clearTimeout (handle fired) e"
  let ?key = "p @ ''-'' @ direction_string d"
  let ?e2 = "engine_of (performSync h world now p d ?e1)"
  have r2: "registered ?e2"
    using registered_clearTimeout [OF reg] by (rule registered_performSync)
  have held: "map_of (pendingOperations e) ?key = Some (handle fired)"
    using reg fired CbSync by (auto simp: registered_def)
  have "p' @ ''-'' @ direction_string d' \<noteq> ?key"
    if tm: "tm \<in> set (timers ?e2)" and act: "action tm = CbSync p' d'" for tm p' d'
  proof
    assume same: "p' @ ''-'' @ direction_string d' = ?key"
    from tm act performSync_timers [of h world now p d ?e1]
    have old: "tm \<in> set (timers ?e1)" by auto
    then have "tm \<in> set (timers e)" "handle tm \<noteq> handle fired"
      by (auto simp: clearTimeout_def)
    with reg act same held show False by (auto simp: registered_def)
  qed
  with r2 have "registered (?e2\<lparr>pendingOperations := AList.delete ?key (pendingOperations ?e2)\<rparr>)"
    by (rule registered_drop_key)
  moreover have "engine_of (run_callback h world now (CbSync p d) ?e1) =
      ?e2\<lparr>pendingOperations := AList.delete ?key (pendingOperations ?e2)\<rparr>"
    by (simp add: run_callback_def engine_of_def split: prod.splits)
  ultimately show ?thesis using CbSync by simp
qed

lemma registered_apply_call:
  assumes "registered e"
  shows "registered (apply_call h world now c e)"
proof (cases c)
  case (TimerFires n)
  show ?thesis
  proof (cases "find (\<lambda>tm. handle tm = n) (timers e)")
    case None
    with TimerFires assms show ?thesis by (simp add: apply_call_def)
  next
    case (Some fired)
    then have "fired \<in> set (timers e)" "handle fired = n"
      by (auto simp: find_Some_iff in_set_conv_nth)
    with registered_run_callback [OF assms, of fired h world now] Some TimerFires
    show ?thesis by (simp add: apply_call_def)
  qed
qed (use assms in \<open>simp_all add: apply_call_def registered_lockFile registered_unlockFile
      registered_updateFileHash registered_updateRelatedHashes registered_cleanup
      registered_initializeFileHashes registered_handleFileChange registered_scheduleSync
      registered_performSync\<close>)

lemma registered_run: "registered e \<Longrightarrow> registered (run h e calls)"
  by (induction calls arbitrary: e) (auto simp: registered_apply_call)

subsection \<open>Handles are fresh\<close>

lemma fresh_constructor: "fresh (constructor s t)"
  by (simp add: fresh_def constructor_def)

lemma fresh_setTimeout: "fresh e \<Longrightarrow> fresh (snd (setTimeout cb delay now e))"
  by (auto simp: fresh_def setTimeout_def)

lemma fresh_clearTimeout: "fresh e \<Longrightarrow> fresh (clearTimeout n e)"
  by (auto simp: fresh_def clearTimeout_def)

lemma fresh_lockFile: "fresh e \<Longrightarrow> fresh (lockFile now p e)"
  by (auto simp: fresh_def lockFile_def setTimeout_def)

lemma fresh_unlockFile: "fresh e \<Longrightarrow> fresh (unlockFile now p e)"
  by (auto simp: fresh_def unlockFile_def setTimeout_def)

lemma fresh_updateFileHash: "fresh e \<Longrightarrow> fresh (updateFileHash h fs now p e)"
  by (simp add: fresh_def updateFileHash_def Let_def)

lemma fresh_updateRelatedHashes: "fresh e \<Longrightarrow> fresh (updateRelatedHashes h fs now a b e)"
  by (simp add: fresh_def updateRelatedHashes_def Let_def)

lemma fresh_initializeFileHashes: "fresh e \<Longrightarrow> fresh (initializeFileHashes h fs now files e)"
  unfolding initializeFileHashes_def
  by (induction files arbitrary: e) (simp_all add: fresh_updateFileHash)

lemma fresh_cleanup: "fresh e \<Longrightarrow> fresh (cleanup e)"
  by (auto simp: fresh_def cleanup_unfolded)

lemma scheduleSync_next_handle: "next_handle (scheduleSync now p d e) = next_handle e + 1"
  by (simp add: scheduleSync_def Let_def setTimeout_def clearTimeout_def split: option.splits)

lemma fresh_scheduleSync: "fresh e \<Longrightarrow> fresh (scheduleSync now p d e)"
  by (auto simp: fresh_def scheduleSync_timers scheduleSync_next_handle)

lemma fresh_handleFileChange: "fresh e \<Longrightarrow> fresh (handleFileChange h fs now p e)"
  by (simp add: handleFileChange_def Let_def fresh_scheduleSync)

lemma fresh_performSync:
  assumes "fresh e"
  shows "fresh (engine_of (performSync h world start filePath d e))"
proof -
  let ?p = "path_resolve (cwd h) filePath"
  have fin: "fresh (snd (setTimeout (CbUnlock ?p) 1000 t x))" if "fresh x" for x t
    using that by (rule fresh_setTimeout)
  have l: "fresh (lockFile start ?p e)"
    using assms by (rule fresh_lockFile)
  show ?thesis
  proof (cases rule: performSync_try_cases [of e ?p h world start d])
    case locked
    then show ?thesis using fin [OF assms] by (simp add: performSync_unfold engine_of_def)
  next
    case idle
    then show ?thesis using fin [OF l] by (simp add: performSync_unfold engine_of_def)
  next
    case (failed err fs2)
    then show ?thesis using fin [OF l] by (simp add: performSync_unfold engine_of_def)
  next
    case (synced fs2 fs3)
    then show ?thesis
      using fin [OF fresh_updateRelatedHashes [OF l]]
      by (simp add: performSync_unfold engine_of_def)
  qed
qed

lemma fresh_run_callback:
  assumes "fresh e"
  shows "fresh (engine_of (run_callback h world now cb e))"
proof (cases cb)
  case (CbUnlock q)
  then show ?thesis using fresh_unlockFile [OF assms] by (simp add: run_callback_def engine_of_def)
next
  case (CbForget q)
  then show ?thesis using assms by (simp add: run_callback_def engine_of_def fresh_def)
next
  case (CbSync p d)
  obtain r e' rest where r: "performSync h world now p d e = (r, (e', rest))"
    by (metis prod.exhaust)
  then have "fresh e'"
    using fresh_performSync [OF assms, of h world now p d] by (simp add: engine_of_def)
  then have "fresh (e'\<lparr>pendingOperations :=
      AList.delete (p @ ''-'' @ direction_string d) (pendingOperations e')\<rparr>)"
    by (simp add: fresh_def)
  with r CbSync show ?thesis by (simp add: run_callback_def engine_of_def)
qed

lemma fresh_apply_call:
  assumes "fresh e"
  shows "fresh (apply_call h world now c e)"
proof (cases c)
  case (TimerFires n)
  then show ?thesis
    using assms fresh_run_callback [OF fresh_clearTimeout [OF assms]]
    by (simp add: apply_call_def split: option.splits)
qed (use assms in \<open>simp_all add: apply_call_def fresh_lockFile fresh_unlockFile
      fresh_updateFileHash fresh_updateRelatedHashes fresh_cleanup fresh_initializeFileHashes
      fresh_handleFileChange fresh_scheduleSync fresh_performSync\<close>)

lemma fresh_run: "fresh e \<Longrightarrow> fresh (run h e calls)"
  by (induction calls arbitrary: e) (auto simp: fresh_apply_call)

subsection \<open>A burst of events\<close>

lemma scheduleSync_find:
  assumes "fresh e"
  shows "find (\<lambda>tm. handle tm = next_handle e) (timers (scheduleSync now p d e)) =
           Some \<lparr>handle = next_handle e, due = now + (if d = TargetToSource then 4000 else 2000),
                 action = CbSync p d\<rparr>"
proof -
  have fnd: "find (\<lambda>tm. handle tm = n) (xs @ [x]) = Some x"
    if "\<forall>tm\<in>set xs. handle tm < n" "handle x = n" for xs x and n :: nat
    using that by (induction xs) auto
  show ?thesis
    unfolding scheduleSync_timers
    by (rule fnd) (use assms in \<open>auto simp: fresh_def\<close>)
qed

lemma burst_single:
  assumes "registered e" and "fresh e" and "ts \<noteq> []"
  shows "\<exists>n. filter (\<lambda>tm. action tm = CbSync p d) (timers (fold (\<lambda>t. scheduleSync t p d) ts e)) =
           [\<lparr>handle = n, due = last ts + (if d = TargetToSource then 4000 else 2000),
             action = CbSync p d\<rparr>]
         \<and> map_of (pendingOperations (fold (\<lambda>t. scheduleSync t p d) ts e))
             (p @ ''-'' @ direction_string d) = Some n
         \<and> find (\<lambda>tm. handle tm = n) (timers (fold (\<lambda>t. scheduleSync t p d) ts e)) =
             Some \<lparr>handle = n, due = last ts + (if d = TargetToSource then 4000 else 2000),
                   action = CbSync p d\<rparr>
         \<and> registered (fold (\<lambda>t. scheduleSync t p d) ts e)"
  using assms
proof (induction ts arbitrary: e)
  case Nil
  then show ?case by simp
next
  case (Cons t ts)
  have r: "registered (scheduleSync t p d e)"
    using Cons.prems(1) by (rule registered_scheduleSync)
  have f: "fresh (scheduleSync t p d e)"
    using Cons.prems(2) by (rule fresh_scheduleSync)
  show ?case
  proof (cases "ts = []")
    case True
    with r scheduleSync_single [OF Cons.prems(1), of p d t]
      scheduleSync_find [OF Cons.prems(2), of t p d]
    show ?thesis by auto
  next
    case False
    with Cons.IH [OF r f] show ?thesis by simp
  qed
qed

lemma fire_debounce_timer:
  assumes reg: "registered e"
    and one: "filter (\<lambda>tm. action tm = CbSync p d) (timers e) = [fired]"
    and found: "find (\<lambda>tm. handle tm = handle fired) (timers e) = Some fired"
  shows "apply_call h world now (TimerFires (handle fired)) e =
           (engine_of (performSync h world now p d (clearTimeout (handle fired) e)))
             \<lparr>pendingOperations := AList.delete (p @ ''-'' @ direction_string d) (pendingOperations e)\<rparr>"
    and "filter (\<lambda>tm. action tm = CbSync p d)
           (timers (apply_call h world now (TimerFires (handle fired)) e)) = []"
    and "map_of (pendingOperations (apply_call h world now (TimerFires (handle fired)) e))
           (p @ ''-'' @ direction_string d) = None"
proof -
  let ?e1 = "clearTimeout (handle fired) e"
  let ?e2 = "engine_of (performSync h world now p d ?e1)"
  have "fired \<in> set (filter (\<lambda>tm. action tm = CbSync p d) (timers e))"
    by (simp add: one)
  then have act: "action fired = CbSync p d"
    by simp
  have pend: "pendingOperations ?e2 = pendingOperations e"
    using performSync_timers [of h world now p d ?e1] by simp
  show eq: "apply_call h world now (TimerFires (handle fired)) e =
      ?e2\<lparr>pendingOperations := AList.delete (p @ ''-'' @ direction_string d) (pendingOperations e)\<rparr>"
    using found act pend
    by (cases "performSync h world now p d ?e1")
       (simp add: apply_call_def run_callback_def engine_of_def)
  have none1: "filter (\<lambda>tm. action tm = CbSync p d) (timers ?e1) = []"
  proof -
    have "tm = fired" if "tm \<in> set (timers e)" "action tm = CbSync p d" for tm
    proof -
      from that have "tm \<in> set (filter (\<lambda>tm. action tm = CbSync p d) (timers e))" by simp
      with one show ?thesis by simp
    qed
    then show ?thesis by (auto simp: clearTimeout_def filter_empty_conv)
  qed
  have "action tm \<noteq> CbSync p d" if "tm \<in> set (timers ?e2)" for tm
  proof -
    from that performSync_timers [of h world now p d ?e1]
    have "tm \<in> set (timers ?e1) \<or> (\<exists>q. action tm = CbUnlock q)" by blast
    with none1 show ?thesis by (auto simp: filter_empty_conv)
  qed
  then show "filter (\<lambda>tm. action tm = CbSync p d)
           (timers (apply_call h world now (TimerFires (handle fired)) e)) = []"
    by (simp add: eq filter_empty_conv)
  show "map_of (pendingOperations (apply_call h world now (TimerFires (handle fired)) e))
           (p @ ''-'' @ direction_string d) = None"
    by (simp add: eq delete_conv')
qed

text \<open>
  Claim C5. \<^verbatim>\<open>scheduleSync\<close> cancels the timer that \<^verbatim>\<open>pendingOperations\<close> holds for
  the key and sets a new one. In every state the engine reaches from the constructor, a
  burst of one or more calls for the same path and direction, with no timer firing in
  between (each event arrives before the pending timer is due), leaves exactly one
  debounce timer for that path and direction. It is due at the time of the last call plus
  4000ms for target to source and 2000ms for source to target, and it is the timer held
  under the key. When it fires it calls \<^verbatim>\<open>performSync\<close> once and deletes the key;
  no debounce timer for the path and direction is left.
\<close>

theorem burst_leaves_one_timer:
  fixes h sourceRoot targetRoot calls p d ts world now
  defines "e \<equiv> fold (\<lambda>t. scheduleSync t p d) ts (run h (constructor sourceRoot targetRoot) calls)"
  defines "key \<equiv> p @ ''-'' @ direction_string d"
  assumes "ts \<noteq> []"
  shows "\<exists>n. filter (\<lambda>tm. action tm = CbSync p d) (timers e) =
           [\<lparr>handle = n, due = last ts + (if d = TargetToSource then 4000 else 2000),
             action = CbSync p d\<rparr>]
         \<and> map_of (pendingOperations e) key = Some n
         \<and> apply_call h world now (TimerFires n) e =
             (engine_of (performSync h world now p d (clearTimeout n e)))
               \<lparr>pendingOperations := AList.delete key (pendingOperations e)\<rparr>
         \<and> filter (\<lambda>tm. action tm = CbSync p d)
               (timers (apply_call h world now (TimerFires n) e)) = []
         \<and> map_of (pendingOperations (apply_call h world now (TimerFires n) e)) key = None"
proof -
  let ?tm = "\<lambda>n. \<lparr>handle = n, due = last ts + (if d = TargetToSource then 4000 else 2000),
                   action = CbSync p d\<rparr>"
  from burst_single [OF registered_run [OF registered_constructor]
      fresh_run [OF fresh_constructor] assms(3)]
  obtain n where one: "filter (\<lambda>tm. action tm = CbSync p d) (timers e) = [?tm n]"
    and held: "map_of (pendingOperations e) key = Some n"
    and found: "find (\<lambda>tm. handle tm = n) (timers e) = Some (?tm n)"
    and reg: "registered e"
    unfolding e_def key_def by blast
  from found have found': "find (\<lambda>tm. handle tm = handle (?tm n)) (timers e) = Some (?tm n)"
    by simp
  from fire_debounce_timer [OF reg one found', of h world now] one held
  show ?thesis unfolding key_def by auto
qed

theorem burst_leaves_one_timer_witness:
  "filter (\<lambda>tm. action tm = CbSync style_css_target TargetToSource)
     (timers (fold (\<lambda>t. scheduleSync t style_css_target TargetToSource) [0, 900, 1700]
        (run example_host (constructor ''/proj/wp-content'' ''/proj/wordpress/wp-content'')
           [(quiet example_fs, 100, PerformSync style_css SourceToTarget)])))
     = [\<lparr>handle = 4, due = 5700, action = CbSync style_css_target TargetToSource\<rparr>]
   \<and> map_of (pendingOperations
         (apply_call example_host (quiet example_fs) 5700 (TimerFires 4)
            (fold (\<lambda>t. scheduleSync t style_css_target TargetToSource) [0, 900, 1700]
               (run example_host (constructor ''/proj/wp-content'' ''/proj/wordpress/wp-content'')
                  [(quiet example_fs, 100, PerformSync style_css SourceToTarget)]))))
       (style_css_target @ ''-'' @ direction_string TargetToSource) = None"
proof -
  let ?e = "fold (\<lambda>t. scheduleSync t style_css_target TargetToSource) [0, 900, 1700]
        (run example_host (constructor ''/proj/wp-content'' ''/proj/wordpress/wp-content'')
           [(quiet example_fs, 100, PerformSync style_css SourceToTarget)])"
  have ne: "[0, 900, 1700 :: int] \<noteq> []" by simp
  have ev: "filter (\<lambda>tm. action tm = CbSync style_css_target TargetToSource) (timers ?e)
      = [\<lparr>handle = 4, due = 5700, action = CbSync style_css_target TargetToSource\<rparr>]"
    by code_simp
  from burst_leaves_one_timer [OF ne, where h = example_host
      and sourceRoot = "''/proj/wp-content''" and targetRoot = "''/proj/wordpress/wp-content''"
      and calls = "[(quiet example_fs, 100, PerformSync style_css SourceToTarget)]"
      and p = style_css_target and d = TargetToSource and world = "quiet example_fs"
      and now = 5700]
  obtain n where
    one: "filter (\<lambda>tm. action tm = CbSync style_css_target TargetToSource) (timers ?e) =
       [\<lparr>handle = n, due = last [0, 900, 1700] + (if TargetToSource = TargetToSource then 4000 else 2000),
         action = CbSync style_css_target TargetToSource\<rparr>]"
    and gone: "map_of (pendingOperations
         (apply_call example_host (quiet example_fs) 5700 (TimerFires n) ?e))
       (style_css_target @ ''-'' @ direction_string TargetToSource) = None"
    by blast
  from one ev have "n = 4" by simp
  with ev gone show ?thesis by simp
qed

subsection \<open>Handles in \<^verbatim>\<open>pendingOperations\<close> belong to debounce timers\<close>

lemma owned_constructor: "owned (constructor s t)"
  by (simp add: owned_def constructor_def)

lemma owned_setTimeout: "owned e \<Longrightarrow> owned (snd (setTimeout cb delay now e))"
  by (fastforce simp: owned_def setTimeout_def)

lemma owned_clearTimeout: "owned e \<Longrightarrow> owned (clearTimeout n e)"
  by (auto simp: owned_def clearTimeout_def)

lemma owned_lockFile: "owned e \<Longrightarrow> owned (lockFile now p e)"
  unfolding lockFile_def
  by (rule owned_setTimeout) (simp add: owned_def)

lemma owned_unlockFile: "owned e \<Longrightarrow> owned (unlockFile now p e)"
  unfolding unlockFile_def
  by (rule owned_setTimeout) (simp add: owned_def)

lemma owned_updateFileHash: "owned e \<Longrightarrow> owned (updateFileHash h fs now p e)"
  by (simp add: owned_def updateFileHash_def Let_def)

lemma owned_updateRelatedHashes: "owned e \<Longrightarrow> owned (updateRelatedHashes h fs now a b e)"
  by (simp add: owned_def updateRelatedHashes_def Let_def)

lemma owned_initializeFileHashes: "owned e \<Longrightarrow> owned (initializeFileHashes h fs now files e)"
  unfolding initializeFileHashes_def
  by (induction files arbitrary: e) (simp_all add: owned_updateFileHash)

lemma owned_cleanup: "owned (cleanup e)"
  by (simp add: owned_def cleanup_unfolded)

lemma set_update_subset: "set (AList.update k v al) \<subseteq> insert (k, v) (set al)"
  by (induction al) auto

lemma owned_scheduleSync:
  assumes own: "owned e" and fr: "fresh e"
  shows "owned (scheduleSync now p d e)"
  unfolding owned_def
proof (intro ballI conjI impI)
  fix n
  assume "n \<in> snd ` set (pendingOperations (scheduleSync now p d e))"
  then have n: "n = next_handle e \<or> n \<in> snd ` set (pendingOperations e)"
    using set_update_subset [of "p @ ''-'' @ direction_string d" "next_handle e" "pendingOperations e"]
    by (auto simp: scheduleSync_pending)
  from n own show "n < next_handle (scheduleSync now p d e)"
    by (auto simp: scheduleSync_next_handle owned_def)
  fix tm
  assume tm: "tm \<in> set (timers (scheduleSync now p d e))" and hd: "handle tm = n"
  from tm consider
      (new) "tm = \<lparr>handle = next_handle e,
                  due = now + (if d = TargetToSource then 4000 else 2000), action = CbSync p d\<rparr>"
    | (old) "tm \<in> set (timers e)"
    by (auto simp: scheduleSync_timers)
  then show "is_debounce (action tm)"
  proof cases
    case new
    then show ?thesis by simp
  next
    case old
    with fr have "handle tm < next_handle e" by (simp add: fresh_def)
    with n hd have "n \<in> snd ` set (pendingOperations e)" by auto
    with own old hd show ?thesis by (auto simp: owned_def)
  qed
qed

lemma owned_handleFileChange:
  "owned e \<Longrightarrow> fresh e \<Longrightarrow> owned (handleFileChange h fs now p e)"
  by (simp add: handleFileChange_def Let_def owned_scheduleSync)

lemma owned_performSync:
  assumes "owned e"
  shows "owned (engine_of (performSync h world start filePath d e))"
proof -
  let ?p = "path_resolve (cwd h) filePath"
  have fin: "owned (snd (setTimeout (CbUnlock ?p) 1000 t x))" if "owned x" for x t
    using that by (rule owned_setTimeout)
  have l: "owned (lockFile start ?p e)"
    using assms by (rule owned_lockFile)
  show ?thesis
  proof (cases rule: performSync_try_cases [of e ?p h world start d])
    case locked
    then show ?thesis using fin [OF assms] by (simp add: performSync_unfold engine_of_def)
  next
    case idle
    then show ?thesis using fin [OF l] by (simp add: performSync_unfold engine_of_def)
  next
    case (failed err fs2)
    then show ?thesis using fin [OF l] by (simp add: performSync_unfold engine_of_def)
  next
    case (synced fs2 fs3)
    then show ?thesis
      using fin [OF owned_updateRelatedHashes [OF l]]
      by (simp add: performSync_unfold engine_of_def)
  qed
qed

lemma owned_run_callback:
  assumes "owned e"
  shows "owned (engine_of (run_callback h world now cb e))"
proof (cases cb)
  case (CbUnlock q)
  then show ?thesis using owned_unlockFile [OF assms] by (simp add: run_callback_def engine_of_def)
next
  case (CbForget q)
  then show ?thesis using assms by (simp add: run_callback_def engine_of_def owned_def)
next
  case (CbSync p d)
  obtain r e' rest where r: "performSync h world now p d e = (r, (e', rest))"
    by (metis prod.exhaust)
  then have "owned e'"
    using owned_performSync [OF assms, of h world now p d] by (simp add: engine_of_def)
  then have "owned (e'\<lparr>pendingOperations :=
      AList.delete (p @ ''-'' @ direction_string d) (pendingOperations e')\<rparr>)"
    by (auto simp: owned_def AList.delete_eq)
  with r CbSync show ?thesis by (simp add: run_callback_def engine_of_def)
qed

lemma owned_apply_call:
  assumes "owned e" and "fresh e"
  shows "owned (apply_call h world now c e)"
proof (cases c)
  case (TimerFires n)
  then show ?thesis
    using assms owned_run_callback [OF owned_clearTimeout [OF assms(1)]]
    by (simp add: apply_call_def split: option.splits)
qed (use assms in \<open>simp_all add: apply_call_def owned_lockFile owned_unlockFile
      owned_updateFileHash owned_updateRelatedHashes owned_cleanup owned_initializeFileHashes
      owned_handleFileChange owned_scheduleSync owned_performSync\<close>)

lemma owned_run: "owned e \<Longrightarrow> fresh e \<Longrightarrow> owned (run h e calls)"
  by (induction calls arbitrary: e) (auto simp: owned_apply_call fresh_apply_call)

subsection \<open>Teardown cancels the debounce timers and no others\<close>

lemma cleanup_reached:
  assumes reg: "registered e" and own: "owned e"
  shows "cleanup e =
     e\<lparr>timers := filter (\<lambda>tm. \<not> is_debounce (action tm)) (timers e),
       pendingOperations := [], syncingFiles := {}, recentlySynced := {}\<rparr>"
proof -
  have "(handle tm \<notin> snd ` set (pendingOperations e)) = (\<not> is_debounce (action tm))"
    if tm: "tm \<in> set (timers e)" for tm
  proof (cases "action tm")
    case (CbSync p d)
    with reg tm
    have "map_of (pendingOperations e) (p @ ''-'' @ direction_string d) = Some (handle tm)"
      by (auto simp: registered_def)
    then have "(p @ ''-'' @ direction_string d, handle tm) \<in> set (pendingOperations e)"
      by (rule map_of_SomeD)
    then have "handle tm \<in> snd ` set (pendingOperations e)" by force
    with CbSync show ?thesis by simp
  next
    case (CbUnlock q)
    have "handle tm \<notin> snd ` set (pendingOperations e)"
    proof
      assume "handle tm \<in> snd ` set (pendingOperations e)"
      with own tm have "is_debounce (action tm)" unfolding owned_def by blast
      with CbUnlock show False by simp
    qed
    with CbUnlock show ?thesis by simp
  next
    case (CbForget q)
    have "handle tm \<notin> snd ` set (pendingOperations e)"
    proof
      assume "handle tm \<in> snd ` set (pendingOperations e)"
      with own tm have "is_debounce (action tm)" unfolding owned_def by blast
      with CbForget show False by simp
    qed
    with CbForget show ?thesis by simp
  qed
  then have "filter (\<lambda>tm. handle tm \<notin> snd ` set (pendingOperations e)) (timers e) =
      filter (\<lambda>tm. \<not> is_debounce (action tm)) (timers e)"
    by (intro filter_cong refl) simp
  then show ?thesis by (simp add: cleanup_unfolded)
qed

text \<open>
  Claim C8, as the code has it. In every state the engine reaches from the constructor,
  \<^verbatim>\<open>cleanup\<close> cancels the debounce timers, all of them and no other timer, and empties
  \<^verbatim>\<open>pendingOperations\<close>, \<^verbatim>\<open>syncingFiles\<close> and \<^verbatim>\<open>recentlySynced\<close>. Every timer that
  is not a debounce timer (the 10-second timer of \<^verbatim>\<open>lockFile\<close>, the 5-second timer of
  \<^verbatim>\<open>unlockFile\<close>, the 1-second timer of the \<^verbatim>\<open>finally\<close> of \<^verbatim>\<open>performSync\<close>) is
  outstanding after \<^verbatim>\<open>cleanup\<close> as it was before, and the hash map and the sync times
  are kept.
\<close>

theorem cleanup_cancels_debounce_only:
  fixes h sourceRoot targetRoot calls
  defines "e \<equiv> run h (constructor sourceRoot targetRoot) calls"
  shows "cleanup e =
     e\<lparr>timers := filter (\<lambda>tm. \<not> is_debounce (action tm)) (timers e),
       pendingOperations := [], syncingFiles := {}, recentlySynced := {}\<rparr>"
  unfolding e_def
  by (rule cleanup_reached [OF registered_run [OF registered_constructor]
        owned_run [OF owned_constructor fresh_constructor]])

theorem cleanup_cancels_debounce_only_witness:
  "timers (run example_host (constructor ''/proj/wp-content'' ''/proj/wordpress/wp-content'')
      [(quiet example_fs, 100, PerformSync style_css SourceToTarget),
       (quiet example_fs, 1600, TimerFires 1),
       (quiet example_fs, 1700, ScheduleSync style_css_target TargetToSource)]) =
     [\<lparr>handle = 0, due = 10100, action = CbUnlock style_css\<rparr>,
      \<lparr>handle = 2, due = 6600, action = CbForget style_css\<rparr>,
      \<lparr>handle = 3, due = 5700, action = CbSync style_css_target TargetToSource\<rparr>]
   \<and> timers (cleanup
       (run example_host (constructor ''/proj/wp-content'' ''/proj/wordpress/wp-content'')
          [(quiet example_fs, 100, PerformSync style_css SourceToTarget),
           (quiet example_fs, 1600, TimerFires 1),
           (quiet example_fs, 1700, ScheduleSync style_css_target TargetToSource)])) =
     [\<lparr>handle = 0, due = 10100, action = CbUnlock style_css\<rparr>,
      \<lparr>handle = 2, due = 6600, action = CbForget style_css\<rparr>]
   \<and> pendingOperations (cleanup
       (run example_host (constructor ''/proj/wp-content'' ''/proj/wordpress/wp-content'')
          [(quiet example_fs, 100, PerformSync style_css SourceToTarget),
           (quiet example_fs, 1600, TimerFires 1),
           (quiet example_fs, 1700, ScheduleSync style_css_target TargetToSource)])) = []"
proof -
  let ?e = "run example_host (constructor ''/proj/wp-content'' ''/proj/wordpress/wp-content'')
      [(quiet example_fs, 100, PerformSync style_css SourceToTarget),
       (quiet example_fs, 1600, TimerFires 1),
       (quiet example_fs, 1700, ScheduleSync style_css_target TargetToSource)]"
  have before: "timers ?e =
     [\<lparr>handle = 0, due = 10100, action = CbUnlock style_css\<rparr>,
      \<lparr>handle = 2, due = 6600, action = CbForget style_css\<rparr>,
      \<lparr>handle = 3, due = 5700, action = CbSync style_css_target TargetToSource\<rparr>]"
    by code_simp
  have "cleanup ?e =
     ?e\<lparr>timers := filter (\<lambda>tm. \<not> is_debounce (action tm)) (timers ?e),
        pendingOperations := [], syncingFiles := {}, recentlySynced := {}\<rparr>"
    by (rule cleanup_cancels_debounce_only)
  then have "timers (cleanup ?e) = filter (\<lambda>tm. \<not> is_debounce (action tm)) (timers ?e)"
    and "pendingOperations (cleanup ?e) = []"
    by simp_all
  with before show ?thesis by simp
qed

text \<open>
  Claim C8 as stated fails: the 10-second timer of \<^verbatim>\<open>lockFile\<close> and the 5-second
  timer of \<^verbatim>\<open>unlockFile\<close> are still outstanding after \<^verbatim>\<open>cleanup\<close>, and so are
  the two unlock timers of a sync cycle when the session is torn down after it.
\<close>

theorem cleanup_leaves_lock_timers:
  "timers (cleanup (lockFile 0 style_css example_engine)) =
     [\<lparr>handle = 0, due = 10000, action = CbUnlock style_css\<rparr>]
   \<and> timers (cleanup (unlockFile 0 style_css example_engine)) =
     [\<lparr>handle = 0, due = 5000, action = CbForget style_css\<rparr>]
   \<and> timers (run example_host example_engine
         [(quiet example_fs, 100, PerformSync style_css SourceToTarget),
          (quiet example_fs, 700, Cleanup)]) =
     [\<lparr>handle = 0, due = 10100, action = CbUnlock style_css\<rparr>,
      \<lparr>handle = 1, due = 1600, action = CbUnlock style_css\<rparr>]"
  by code_simp

subsection \<open>The engine's own write\<close>




end
